theory Spec2Isabelle
  imports Main "HOL-Library.AList"
begin

section \<open>Data model\<close>

text \<open>
  An element of the collection that \<^verbatim>\<open>guild.invites.fetch()\<close> resolves to. discord.js keys
  that collection by the invite's code, so an entry's key is its \<open>code\<close> field; the
  collection is the list of its entries in iteration order. \<open>uses\<close> is
  \<^verbatim>\<open>number | null\<close>.
\<close>

record invite =
  code :: string
  uses :: "int option"

text \<open>
  The value of \<^verbatim>\<open>inviteCache.get(guildId)\<close>: a \<^verbatim>\<open>Map<string, number>\<close>, kept as its
  entries in insertion order. \<^verbatim>\<open>Map.set\<close> is \<open>AList.update\<close>: an existing key keeps
  its place, a new key goes last.
\<close>

type_synonym snapshot = "(string \<times> int) list"

datatype status = PENDING | USED | EXPIRED

text \<open>A row of the table \<^verbatim>\<open>invites\<close>; times are milliseconds since the epoch.\<close>

record invite_row =
  invite_code :: string
  role_id :: string
  email :: string
  status :: status
  created_at :: int
  expires_at :: int
  used_at :: "int option"
  member_id :: "string option"

record role =
  position :: int

record guild =
  guild_id :: string
  roles :: "string \<rightharpoonup> role"

record guild_member =
  user_id :: string
  guild :: guild
  pending :: bool

datatype level = LOG | WARN | ERROR

text \<open>
  What a handler does to the outside, in the order it does it: a line on the console, or
  an awaited call (recorded when it is made, whether it then resolves or rejects).
\<close>

datatype event =
    Console level
  | GuildsFetch string
  | InvitesFetch string
  | QueryRecentPending
  | QueryPendingByCode string
  | MembersFetch
  | RolesAdd string string
  | QueryUpdateUsed string
  | QueryPendingByEmail string
  | QueryUpdateExpired string
  | CreateInvite
  | QueryInsert string
  | EmailsSend string
  | SetupApiRoutes
  | Listen

record world =
  inviteCache :: "string \<rightharpoonup> snapshot"
  invites :: "invite_row list"
  memberRoles :: "(string \<times> string) set"
  trace :: "event list"

definition emit :: "event \<Rightarrow> world \<Rightarrow> world" where
  "emit e w = w\<lparr>trace := trace w @ [e]\<rparr>"

text \<open>A promise of an async function: it resolves or it rejects.\<close>

datatype completion = Resolved | Rejected

section \<open>JavaScript operators\<close>

text \<open>\<^verbatim>\<open>x ?? 0\<close> on \<^verbatim>\<open>number | null | undefined\<close>.\<close>

definition orZero :: "int option \<Rightarrow> int" where
  "orZero x = (case x of None \<Rightarrow> 0 | Some n \<Rightarrow> n)"

text \<open>
  Truthiness of a \<^verbatim>\<open>string | null\<close>: \<^verbatim>\<open>null\<close> and the empty string are falsy, so
  \<^verbatim>\<open>!usedCode\<close> is \<open>\<not> truthy usedCode\<close>.
\<close>

definition truthy :: "string option \<Rightarrow> bool" where
  "truthy u = (case u of None \<Rightarrow> False | Some s \<Rightarrow> s \<noteq> [])"

section \<open>The invite cache\<close>

text \<open>
  \<^verbatim>\<open>const map = new Map(); coll.forEach(inv => map.set(inv.code!, inv.uses ?? 0))\<close>
\<close>

definition snapshot_of :: "invite list \<Rightarrow> snapshot" where
  "snapshot_of coll = foldl (\<lambda>m inv. AList.update (code inv) (orZero (uses inv)) m) [] coll"

text \<open>\<^verbatim>\<open>inviteCache.get(guildId) || new Map()\<close>\<close>

definition cached :: "world \<Rightarrow> string \<Rightarrow> snapshot" where
  "cached w g = (case inviteCache w g of None \<Rightarrow> [] | Some m \<Rightarrow> m)"

text \<open>
  \<^verbatim>\<open>populateGuildInvites\<close>: the two fetches are the environment's (\<open>None\<close>: the promise
  rejects); the whole body is inside one \<^verbatim>\<open>try\<close>, whose \<^verbatim>\<open>catch\<close> logs.
\<close>

record populate_env =
  guildsFetch :: "unit option"
  invitesFetch :: "invite list option"

definition populateGuildInvites :: "populate_env \<Rightarrow> string \<Rightarrow> world \<Rightarrow> completion \<times> world" where
  "populateGuildInvites env guildId w =
     (let w1 = emit (GuildsFetch guildId) w in
      case guildsFetch env of
        None \<Rightarrow> (Resolved, emit (Console ERROR) w1)
      | Some _ \<Rightarrow>
          (let w2 = emit (InvitesFetch guildId) w1 in
           case invitesFetch env of
             None \<Rightarrow> (Resolved, emit (Console ERROR) w2)
           | Some invitesCollection \<Rightarrow>
               (Resolved,
                emit (Console LOG)
                  (w2\<lparr>inviteCache := (inviteCache w2)(guildId \<mapsto> snapshot_of invitesCollection)\<rparr>))))"

text \<open>
  The \<^verbatim>\<open>ready\<close> handler; \<open>GUILD_ID\<close> is \<^verbatim>\<open>process.env.GUILD_ID\<close>. A rejected
  \<^verbatim>\<open>await\<close> would end the handler there.
\<close>

definition ready :: "populate_env \<Rightarrow> string option \<Rightarrow> world \<Rightarrow> completion \<times> world" where
  "ready env GUILD_ID w =
     (let w1 = emit (Console LOG) w;
          (p, w2) = (case GUILD_ID of
                       None \<Rightarrow> (Resolved, w1)
                     | Some g \<Rightarrow> if g = [] then (Resolved, w1) else populateGuildInvites env g w1)
      in case p of
           Rejected \<Rightarrow> (Rejected, w2)
         | Resolved \<Rightarrow> (Resolved, emit Listen (emit SetupApiRoutes w2)))"

section \<open>Attribution of a join to an invite\<close>

text \<open>Step 1 of \<^verbatim>\<open>guildMemberAdd\<close>: the loop over the fetched collection.\<close>

fun increment_scan :: "snapshot \<Rightarrow> invite list \<Rightarrow> string option" where
  "increment_scan oldInviteCache [] = None"
| "increment_scan oldInviteCache (newInviteObject # rest) =
     (let oldUses = orZero (map_of oldInviteCache (code newInviteObject));
          newUses = orZero (uses newInviteObject)
      in if newUses > oldUses then Some (code newInviteObject)
         else increment_scan oldInviteCache rest)"

text \<open>Step 2: the loop over the old cache; \<^verbatim>\<open>newInvitesCollection.has(code)\<close>.\<close>

fun disappearance_scan :: "snapshot \<Rightarrow> invite list \<Rightarrow> string option" where
  "disappearance_scan [] newInvitesCollection = None"
| "disappearance_scan ((c, oldUses) # rest) newInvitesCollection =
     (if c \<notin> set (map code newInvitesCollection) then Some c
      else disappearance_scan rest newInvitesCollection)"

text \<open>
  \<^verbatim>\<open>SELECT invite_code FROM invites WHERE status = 'PENDING' ORDER BY created_at DESC LIMIT 1\<close>:
  a PENDING row of greatest \<open>created_at\<close>. SQL leaves the choice among equal times open;
  here the first such row of the table is taken.
\<close>

fun latest :: "invite_row list \<Rightarrow> invite_row option" where
  "latest [] = None"
| "latest (r # rs) =
     (case latest rs of
        None \<Rightarrow> Some r
      | Some b \<Rightarrow> if created_at b > created_at r then Some b else Some r)"

definition lookupMostRecentPending :: "invite_row list \<Rightarrow> invite_row option" where
  "lookupMostRecentPending tbl = latest (filter (\<lambda>r. status r = PENDING) tbl)"

text \<open>
  The three steps as the handler runs them on \<open>usedCode\<close>: each later step is guarded by
  \<^verbatim>\<open>if (!usedCode)\<close>. \<open>queryOk\<close> says whether the fallback query resolves.
\<close>

definition step1 :: "snapshot \<Rightarrow> invite list \<Rightarrow> world \<Rightarrow> string option \<times> world" where
  "step1 oldInviteCache newInvitesCollection w =
     (case increment_scan oldInviteCache newInvitesCollection of
        None \<Rightarrow> (None, w)
      | Some c \<Rightarrow> (Some c, emit (Console LOG) w))"

definition step2 :: "snapshot \<Rightarrow> invite list \<Rightarrow> string option \<Rightarrow> world \<Rightarrow> string option \<times> world" where
  "step2 oldInviteCache newInvitesCollection usedCode w =
     (if \<not> truthy usedCode then
        (case disappearance_scan oldInviteCache newInvitesCollection of
           None \<Rightarrow> (usedCode, w)
         | Some c \<Rightarrow> (Some c, emit (Console LOG) w))
      else (usedCode, w))"

definition fallback :: "bool \<Rightarrow> string option \<Rightarrow> world \<Rightarrow> string option \<times> world" where
  "fallback queryOk usedCode w =
     (if \<not> truthy usedCode then
        (let w1 = emit QueryRecentPending w in
         if \<not> queryOk then (usedCode, emit (Console ERROR) w1)
         else (case lookupMostRecentPending (invites w1) of
                 None \<Rightarrow> (usedCode, w1)
               | Some r \<Rightarrow> (Some (invite_code r), emit (Console LOG) w1)))
      else (usedCode, w))"

definition attribution :: "snapshot \<Rightarrow> invite list \<Rightarrow> bool \<Rightarrow> world \<Rightarrow> string option \<times> world" where
  "attribution oldInviteCache newInvitesCollection queryOk w =
     (let (u1, w1) = step1 oldInviteCache newInvitesCollection w;
          (u2, w2) = step2 oldInviteCache newInvitesCollection u1 w1
      in fallback queryOk u2 w2)"

section \<open>Granting the role\<close>

text \<open>
  What the awaited calls of \<^verbatim>\<open>asignarRolPorInvite\<close> do: whether each query resolves, the
  position of the bot's highest role when \<^verbatim>\<open>members.fetch\<close> resolves, whether
  \<^verbatim>\<open>roles.add\<close> resolves, and the time \<^verbatim>\<open>new Date()\<close> reads.
\<close>

record grant_env =
  selectOk :: bool
  botHighest :: "int option"
  rolesAddOk :: bool
  usedNow :: int
  updateOk :: bool

text \<open>
  \<^verbatim>\<open>SELECT role_id, email FROM invites WHERE invite_code = $1 AND status = 'PENDING'\<close>
\<close>

definition lookupPendingByCode :: "invite_row list \<Rightarrow> string \<Rightarrow> invite_row list" where
  "lookupPendingByCode tbl c = filter (\<lambda>r. invite_code r = c \<and> status r = PENDING) tbl"

text \<open>
  \<^verbatim>\<open>UPDATE invites SET status='USED', used_at=$1, member_id=$2 WHERE invite_code=$3\<close>:
  the statement has no condition on the row's status.
\<close>

definition markUsed :: "invite_row list \<Rightarrow> int \<Rightarrow> string \<Rightarrow> string \<Rightarrow> invite_row list" where
  "markUsed tbl t m c =
     map (\<lambda>r. if invite_code r = c
               then r\<lparr>status := USED, used_at := Some t, member_id := Some m\<rparr>
               else r) tbl"

datatype grant_outcome = NotPending | RoleNotFound | HierarchyViolation | Granted | Caught

definition asignarRolPorInvite ::
    "grant_env \<Rightarrow> guild_member \<Rightarrow> string \<Rightarrow> world \<Rightarrow> grant_outcome \<times> world" where
  "asignarRolPorInvite env member c w =
     (let w1 = emit (QueryPendingByCode c) (emit (Console LOG) w) in
      if \<not> selectOk env then (Caught, emit (Console ERROR) w1)
      else
        (case lookupPendingByCode (invites w1) c of
           [] \<Rightarrow> (NotPending, emit (Console LOG) w1)
         | row # _ \<Rightarrow>
             (case roles (guild member) (role_id row) of
                None \<Rightarrow> (RoleNotFound, emit (Console WARN) w1)
              | Some rl \<Rightarrow>
                  (let w2 = emit MembersFetch w1 in
                   case botHighest env of
                     None \<Rightarrow> (Caught, emit (Console ERROR) w2)
                   | Some highest \<Rightarrow>
                       if position rl \<ge> highest then (HierarchyViolation, emit (Console WARN) w2)
                       else
                         (let w3 = emit (RolesAdd (user_id member) (role_id row)) w2 in
                          if \<not> rolesAddOk env then (Caught, emit (Console ERROR) w3)
                          else
                            (let w4 = emit (Console LOG)
                                        (w3\<lparr>memberRoles :=
                                              insert (user_id member, role_id row) (memberRoles w3)\<rparr>);
                                 w5 = emit (QueryUpdateUsed c) w4
                             in if \<not> updateOk env then (Caught, emit (Console ERROR) w5)
                                else (Granted,
                                      emit (Console LOG)
                                        (w5\<lparr>invites :=
                                              markUsed (invites w5) (usedNow env) (user_id member) c\<rparr>))))))))"

section \<open>The join handler\<close>

record join_env =
  fetched :: "invite list option"
  recentPendingOk :: bool
  grantEnv :: grant_env

datatype join_outcome = Unresolved | Deferred string | Assigned string grant_outcome

text \<open>
  \<^verbatim>\<open>client.on('guildMemberAdd', ...)\<close>. The fetch of the live invites is awaited outside
  any \<^verbatim>\<open>try\<close>: when it rejects the handler's promise rejects, before anything else ran.
\<close>

definition guildMemberAdd ::
    "join_env \<Rightarrow> guild_member \<Rightarrow> world \<Rightarrow> (completion \<times> join_outcome option) \<times> world" where
  "guildMemberAdd env member w =
     (let g = guild_id (guild member);
          oldInviteCache = cached w g;
          w0 = emit (InvitesFetch g) w
      in case fetched env of
           None \<Rightarrow> ((Rejected, None), w0)
         | Some newInvitesCollection \<Rightarrow>
             (let (usedCode, w1) =
                    attribution oldInviteCache newInvitesCollection (recentPendingOk env) w0;
                  currentInvitesMap = snapshot_of newInvitesCollection;
                  w2 = w1\<lparr>inviteCache := (inviteCache w1)(g \<mapsto> currentInvitesMap)\<rparr>;
                  w3 = emit (Console LOG) (emit (Console LOG) w2)
              in case usedCode of
                   None \<Rightarrow> ((Resolved, Some Unresolved), emit (Console LOG) w3)
                 | Some c \<Rightarrow>
                     if c = [] then ((Resolved, Some Unresolved), emit (Console LOG) w3)
                     else
                       (let w4 = emit (Console LOG) w3 in
                        if pending member
                        then ((Resolved, Some (Deferred c)), emit (Console LOG) w4)
                        else
                          (let (r, w5) = asignarRolPorInvite (grantEnv env) member c w4
                           in ((Resolved, Some (Assigned c r)), w5)))))"

section \<open>Issuing an invite\<close>

text \<open>
  What the awaited calls of the route \<^verbatim>\<open>/generate-invite\<close> do. \<open>checkNow\<close> and
  \<open>insertNow\<close> are the two readings of \<^verbatim>\<open>new Date()\<close>; \<open>createInvite\<close> is the code of
  the invite the platform creates (\<open>None\<close>: the call rejects).
\<close>

datatype send_result = Sent | SendError | SendRejected

record api_env =
  selectEmailOk :: bool
  checkNow :: int
  updateExpiredOk :: bool
  guildFound :: bool
  channelOk :: bool
  createInvite :: "string option"
  insertNow :: int
  insertOk :: bool
  send :: send_result

datatype response =
    Status400
  | Status500_guild
  | Status500_channel
  | Status500
  | Status200_mail_error string
  | Status200 string

text \<open>
  \<^verbatim>\<open>SELECT invite_code, created_at FROM invites WHERE email = $1 AND status = 'PENDING'\<close>
\<close>

definition lookupPendingByEmail :: "invite_row list \<Rightarrow> string \<Rightarrow> invite_row list" where
  "lookupPendingByEmail tbl e = filter (\<lambda>r. email r = e \<and> status r = PENDING) tbl"

text \<open>\<^verbatim>\<open>UPDATE invites SET status = 'EXPIRED' WHERE invite_code = $1\<close>\<close>

definition markExpired :: "invite_row list \<Rightarrow> string \<Rightarrow> invite_row list" where
  "markExpired tbl c = map (\<lambda>r. if invite_code r = c then r\<lparr>status := EXPIRED\<rparr> else r) tbl"

text \<open>
  \<^verbatim>\<open>INSERT INTO invites (invite_code, role_id, email, status, created_at, expires_at)\<close>;
  the two columns the statement leaves out are NULL.
\<close>

definition create :: "invite_row list \<Rightarrow> string \<Rightarrow> string \<Rightarrow> string \<Rightarrow> int \<Rightarrow> int \<Rightarrow> invite_row list" where
  "create tbl c rid e createdAt expiresAt =
     tbl @ [\<lparr>invite_code = c, role_id = rid, email = e, status = PENDING,
              created_at = createdAt, expires_at = expiresAt,
              used_at = None, member_id = None\<rparr>]"

definition inviteUrl :: "string \<Rightarrow> string" where
  "inviteUrl c = ''https://discord.gg/'' @ c"

text \<open>
  The first part of the route's \<^verbatim>\<open>try\<close> block: the check of an existing PENDING invite
  of the email. \<open>Inl\<close>: a query rejected (the \<^verbatim>\<open>catch\<close> answers); \<open>Inr (Some url)\<close>:
  the existing invite is still valid; \<open>Inr None\<close>: \<^verbatim>\<open>existingInvite\<close> is undefined or
  was set to null. \<open>ttl\<close> is \<^verbatim>\<open>Number(process.env.INVITE_TTL_SECONDS || 86400)\<close>.
\<close>

definition checkExisting ::
    "int \<Rightarrow> api_env \<Rightarrow> string \<Rightarrow> world \<Rightarrow> (unit + string option) \<times> world" where
  "checkExisting ttl env e w =
     (let w1 = emit (QueryPendingByEmail e) w in
      if \<not> selectEmailOk env then (Inl (), w1)
      else
        (case lookupPendingByEmail (invites w1) e of
           [] \<Rightarrow> (Inr None, w1)
         | existingInvite # _ \<Rightarrow>
             (let expiresAt = created_at existingInvite + ttl * 1000 in
              if checkNow env < expiresAt
              then (Inr (Some (inviteUrl (invite_code existingInvite))), emit (Console LOG) w1)
              else
                (let w2 = emit (QueryUpdateExpired (invite_code existingInvite))
                            (emit (Console LOG) w1)
                 in if \<not> updateExpiredOk env then (Inl (), w2)
                    else (Inr None,
                          w2\<lparr>invites := markExpired (invites w2) (invite_code existingInvite)\<rparr>)))))"

text \<open>
  The block \<^verbatim>\<open>if (!existingInvite) { ... }\<close>. \<open>Inl (Some r)\<close>: the route returns the
  response \<open>r\<close>; \<open>Inl None\<close>: a call rejected; \<open>Inr url\<close>: the new invite's URL.
\<close>

definition createNew ::
    "int \<Rightarrow> api_env \<Rightarrow> string \<Rightarrow> string \<Rightarrow> world \<Rightarrow> (response option + string) \<times> world" where
  "createNew ttl env e roleId w =
     (if \<not> guildFound env then (Inl (Some Status500_guild), emit (Console LOG) w)
      else
        (let w1 = emit (Console LOG) w in
         if \<not> channelOk env then (Inl (Some Status500_channel), emit (Console LOG) w1)
         else
           (let w2 = emit CreateInvite w1 in
            case createInvite env of
              None \<Rightarrow> (Inl None, w2)
            | Some c \<Rightarrow>
                (let w3 = emit (Console LOG) w2;
                     createdAt = insertNow env;
                     expiresAt = createdAt + ttl * 1000;
                     w4 = emit (QueryInsert c) w3
                 in if \<not> insertOk env then (Inl None, w4)
                    else (Inr (inviteUrl c),
                          w4\<lparr>invites := create (invites w4) c roleId e createdAt expiresAt\<rparr>)))))"

text \<open>The sending of the mail and the answer.\<close>

definition sendMail :: "api_env \<Rightarrow> string \<Rightarrow> string \<Rightarrow> world \<Rightarrow> (unit + response) \<times> world" where
  "sendMail env e url w =
     (let w1 = emit (EmailsSend e) w in
      case send env of
        SendRejected \<Rightarrow> (Inl (), w1)
      | SendError \<Rightarrow> (Inr (Status200_mail_error url), emit (Console ERROR) w1)
      | Sent \<Rightarrow> (Inr (Status200 url), emit (Console LOG) w1))"

text \<open>The \<^verbatim>\<open>catch\<close> of the route.\<close>

definition caught :: "world \<Rightarrow> response \<times> world" where
  "caught w = (Status500, emit (Console ERROR) w)"

text \<open>
  \<^verbatim>\<open>app.post('/generate-invite', ...)\<close>; \<open>emailField\<close> and \<open>roleIdField\<close> are the two
  fields of the request's body.
\<close>

definition generate_invite ::
    "int \<Rightarrow> api_env \<Rightarrow> string option \<Rightarrow> string option \<Rightarrow> world \<Rightarrow> response \<times> world" where
  "generate_invite ttl env emailField roleIdField w =
     (case (emailField, roleIdField) of
        (Some e, Some roleId) \<Rightarrow>
          if e = [] \<or> roleId = [] then (Status400, w)
          else
            (case checkExisting ttl env e w of
               (Inl _, w1) \<Rightarrow> caught w1
             | (Inr (Some url), w1) \<Rightarrow>
                 (case sendMail env e url w1 of
                    (Inl _, w2) \<Rightarrow> caught w2
                  | (Inr r, w2) \<Rightarrow> (r, w2))
             | (Inr None, w1) \<Rightarrow>
                 (case createNew ttl env e roleId w1 of
                    (Inl (Some r), w2) \<Rightarrow> (r, w2)
                  | (Inl None, w2) \<Rightarrow> caught w2
                  | (Inr url, w2) \<Rightarrow>
                      (case sendMail env e url w2 of
                         (Inl _, w3) \<Rightarrow> caught w3
                       | (Inr r, w3) \<Rightarrow> (r, w3))))
      | _ \<Rightarrow> (Status400, w))"

section \<open>Calls that overlap\<close>

text \<open>
  A handler gives way at each \<^verbatim>\<open>await\<close>, so a second call can run between the queries
  of a first. \<^verbatim>\<open>asignarRolPorInvite\<close> is cut after its awaited \<^verbatim>\<open>roles.add\<close> and the
  line it logs: \<open>asignar_until_update\<close> ends with the function returned (\<open>Some\<close> of how)
  or about to send the UPDATE (\<open>None\<close>); \<open>asignar_update\<close> is the UPDATE and what
  follows it.
\<close>

definition asignar_until_update ::
    "grant_env \<Rightarrow> guild_member \<Rightarrow> string \<Rightarrow> world \<Rightarrow> grant_outcome option \<times> world" where
  "asignar_until_update env member c w =
     (let w1 = emit (QueryPendingByCode c) (emit (Console LOG) w) in
      if \<not> selectOk env then (Some Caught, emit (Console ERROR) w1)
      else
        (case lookupPendingByCode (invites w1) c of
           [] \<Rightarrow> (Some NotPending, emit (Console LOG) w1)
         | row # _ \<Rightarrow>
             (case roles (guild member) (role_id row) of
                None \<Rightarrow> (Some RoleNotFound, emit (Console WARN) w1)
              | Some rl \<Rightarrow>
                  (let w2 = emit MembersFetch w1 in
                   case botHighest env of
                     None \<Rightarrow> (Some Caught, emit (Console ERROR) w2)
                   | Some highest \<Rightarrow>
                       if position rl \<ge> highest
                       then (Some HierarchyViolation, emit (Console WARN) w2)
                       else
                         (let w3 = emit (RolesAdd (user_id member) (role_id row)) w2 in
                          if \<not> rolesAddOk env then (Some Caught, emit (Console ERROR) w3)
                          else
                            (None,
                             emit (Console LOG)
                               (w3\<lparr>memberRoles :=
                                     insert (user_id member, role_id row) (memberRoles w3)\<rparr>)))))))"

definition asignar_update ::
    "grant_env \<Rightarrow> guild_member \<Rightarrow> string \<Rightarrow> world \<Rightarrow> grant_outcome \<times> world" where
  "asignar_update env member c w =
     (let w5 = emit (QueryUpdateUsed c) w in
      if \<not> updateOk env then (Caught, emit (Console ERROR) w5)
      else (Granted,
            emit (Console LOG)
              (w5\<lparr>invites := markUsed (invites w5) (usedNow env) (user_id member) c\<rparr>)))"

text \<open>
  Two calls A and B for one code, B's SELECT answered before A's UPDATE is sent: A up to
  its UPDATE, B up to its UPDATE, A's UPDATE, B's UPDATE. \<open>overlap_first_update\<close> is the
  state in which B's UPDATE is sent, \<open>overlapping_grants\<close> the state after it.
\<close>

definition overlap_first_update ::
    "grant_env \<Rightarrow> guild_member \<Rightarrow> grant_env \<Rightarrow> guild_member \<Rightarrow> string \<Rightarrow> world \<Rightarrow> world" where
  "overlap_first_update envA memberA envB memberB c w =
     (let (a, w1) = asignar_until_update envA memberA c w;
          (b, w2) = asignar_until_update envB memberB c w1
      in case a of
           Some _ \<Rightarrow> w2
         | None \<Rightarrow> snd (asignar_update envA memberA c w2))"

definition overlapping_grants ::
    "grant_env \<Rightarrow> guild_member \<Rightarrow> grant_env \<Rightarrow> guild_member \<Rightarrow> string \<Rightarrow> world \<Rightarrow> world" where
  "overlapping_grants envA memberA envB memberB c w =
     (let w1 = snd (asignar_until_update envA memberA c w);
          b = fst (asignar_until_update envB memberB c w1);
          w3 = overlap_first_update envA memberA envB memberB c w
      in case b of
           Some _ \<Rightarrow> w3
         | None \<Rightarrow> snd (asignar_update envB memberB c w3))"

text \<open>
  Two requests A and B to \<^verbatim>\<open>/generate-invite\<close> for one email, B's SELECT answered before
  A's INSERT is sent (the route awaits the platform's \<^verbatim>\<open>createInvite\<close> in between): the
  check of A, the check of B, the creation of A, the creation of B, each creation run as
  the route runs it, when the check left no valid invite. The mails, which do not touch
  the table, are left out.
\<close>

definition overlapping_issuances ::
    "int \<Rightarrow> api_env \<Rightarrow> api_env \<Rightarrow> string \<Rightarrow> string \<Rightarrow> world \<Rightarrow> world" where
  "overlapping_issuances ttl envA envB e roleId w =
     (let (a, w1) = checkExisting ttl envA e w;
          (b, w2) = checkExisting ttl envB e w1;
          w3 = (case a of Inr None \<Rightarrow> snd (createNew ttl envA e roleId w2) | _ \<Rightarrow> w2)
      in case b of Inr None \<Rightarrow> snd (createNew ttl envB e roleId w3) | _ \<Rightarrow> w3)"

section \<open>Vocabulary of the statements\<close>

text \<open>The codes of a cached snapshot and of a fetched collection.\<close>

definition keys :: "snapshot \<Rightarrow> string set" where
  "keys old = set (map fst old)"

definition codes :: "invite list \<Rightarrow> string set" where
  "codes new = set (map code new)"

text \<open>
  The use count a snapshot gives a code, with the scan's own reading of a missing code
  (\<^verbatim>\<open>?? 0\<close>). \<open>newCount\<close> reads \<^verbatim>\<open>newInvitesCollection.get(c)?.uses ?? 0\<close>.
\<close>

definition oldCount :: "snapshot \<Rightarrow> string \<Rightarrow> int" where
  "oldCount old c = orZero (map_of old c)"

definition newCount :: "invite list \<Rightarrow> string \<Rightarrow> int" where
  "newCount new c =
     orZero (case find (\<lambda>i. code i = c) new of None \<Rightarrow> None | Some i \<Rightarrow> uses i)"

text \<open>Exactly one code that is in both snapshots has a greater count in the new one: \<open>c\<close>.\<close>

definition sole_increase :: "snapshot \<Rightarrow> invite list \<Rightarrow> string \<Rightarrow> bool" where
  "sole_increase old new c \<longleftrightarrow>
     c \<in> keys old \<and> c \<in> codes new \<and> oldCount old c < newCount new c \<and>
     (\<forall>k \<in> keys old \<inter> codes new. oldCount old k < newCount new k \<longrightarrow> k = c)"

text \<open>No code of the old snapshot is missing from the new one.\<close>

definition none_vanished :: "snapshot \<Rightarrow> invite list \<Rightarrow> bool" where
  "none_vanished old new \<longleftrightarrow> (\<forall>k \<in> keys old. k \<in> codes new)"

text \<open>No code that is only in the new snapshot has a positive count.\<close>

definition no_fresh_use :: "snapshot \<Rightarrow> invite list \<Rightarrow> bool" where
  "no_fresh_use old new \<longleftrightarrow> (\<forall>k \<in> codes new - keys old. newCount new k \<le> 0)"

text \<open>Exactly one code of the old snapshot is missing from the new one: \<open>c\<close>.\<close>

definition sole_vanished :: "snapshot \<Rightarrow> invite list \<Rightarrow> string \<Rightarrow> bool" where
  "sole_vanished old new c \<longleftrightarrow>
     c \<in> keys old \<and> c \<notin> codes new \<and> (\<forall>k \<in> keys old. k \<notin> codes new \<longrightarrow> k = c)"

text \<open>No code of the new snapshot has a count above its old one (0 when it had none).\<close>

definition no_increase :: "snapshot \<Rightarrow> invite list \<Rightarrow> bool" where
  "no_increase old new \<longleftrightarrow> (\<forall>k \<in> codes new. newCount new k \<le> oldCount old k)"

text \<open>A process that has just started: nothing cached, an empty table, nothing done.\<close>

definition world0 :: world where
  "world0 = \<lparr>inviteCache = Map.empty, invites = [], memberRoles = {}, trace = []\<rparr>"

text \<open>
  \<open>r\<close> is a PENDING row of the table and no PENDING row was created later; the table has
  a PENDING row.
\<close>

definition most_recent_pending :: "invite_row list \<Rightarrow> invite_row \<Rightarrow> bool" where
  "most_recent_pending tbl r \<longleftrightarrow>
     r \<in> set tbl \<and> status r = PENDING \<and>
     (\<forall>r' \<in> set tbl. status r' = PENDING \<longrightarrow> created_at r' \<le> created_at r)"

definition has_pending :: "invite_row list \<Rightarrow> bool" where
  "has_pending tbl \<longleftrightarrow> (\<exists>r \<in> set tbl. status r = PENDING)"

text \<open>A row as the INSERT of the route writes it, for the examples.\<close>

definition row :: "string \<Rightarrow> string \<Rightarrow> string \<Rightarrow> status \<Rightarrow> int \<Rightarrow> invite_row" where
  "row c rid e st t =
     \<lparr>invite_code = c, role_id = rid, email = e, status = st, created_at = t,
      expires_at = t + 86400000, used_at = None, member_id = None\<rparr>"

text \<open>The table's unique key: no two rows have the same \<open>invite_code\<close>.\<close>

definition unique_codes :: "invite_row list \<Rightarrow> bool" where
  "unique_codes tbl \<longleftrightarrow> distinct (map invite_code tbl)"

text \<open>At most one PENDING row per email: the emails of the PENDING rows are distinct.\<close>

definition one_pending_per_email :: "invite_row list \<Rightarrow> bool" where
  "one_pending_per_email tbl \<longleftrightarrow> distinct (map email (filter (\<lambda>r. status r = PENDING) tbl))"

text \<open>
  For the examples: a member of guild G1, whose role R1 has position 5; and calls that all
  succeed but, when \<open>u\<close> is false, the UPDATE, with the bot's highest role at position \<open>h\<close>.
\<close>

definition example_member :: "bool \<Rightarrow> guild_member" where
  "example_member p =
     \<lparr>user_id = ''M1'',
      guild = \<lparr>guild_id = ''G1'', roles = [''R1'' \<mapsto> \<lparr>position = 5\<rparr>]\<rparr>,
      pending = p\<rparr>"

definition example_grant_env :: "int \<Rightarrow> bool \<Rightarrow> grant_env" where
  "example_grant_env h u =
     \<lparr>selectOk = True, botHighest = Some h, rolesAddOk = True, usedNow = 1000, updateOk = u\<rparr>"

text \<open>
  Every call of the block that creates the new invite succeeds: the guild and the channel
  are found, the platform creates the invite, the INSERT is accepted.
\<close>

definition creation_succeeds :: "api_env \<Rightarrow> bool" where
  "creation_succeeds env \<longleftrightarrow>
     guildFound env \<and> channelOk env \<and> createInvite env \<noteq> None \<and> insertOk env"

text \<open>
  For the examples: a request checked at time \<open>t\<close>, all of whose calls succeed but, when
  \<open>u\<close> is false, the UPDATE; the platform's new invite has the code NEW1.
\<close>

definition example_api_env :: "int \<Rightarrow> bool \<Rightarrow> api_env" where
  "example_api_env t u =
     \<lparr>selectEmailOk = True, checkNow = t, updateExpiredOk = u, guildFound = True,
      channelOk = True, createInvite = Some ''NEW1'', insertNow = t + 1, insertOk = True,
      send = Sent\<rparr>"

section \<open>The two scans\<close>

lemma find_code_distinct:
  "distinct (map code new) \<Longrightarrow> i \<in> set new \<Longrightarrow> find (\<lambda>j. code j = code i) new = Some i"
  by (induction new) auto

lemma newCount_entry:
  "distinct (map code new) \<Longrightarrow> i \<in> set new \<Longrightarrow> newCount new (code i) = orZero (uses i)"
  by (simp add: newCount_def find_code_distinct)

lemma increment_scan_None_iff:
  "increment_scan old new = None \<longleftrightarrow>
     (\<forall>i \<in> set new. orZero (uses i) \<le> orZero (map_of old (code i)))"
  by (induction new) (auto simp: Let_def)

lemma increment_scan_Some_D:
  "increment_scan old new = Some c \<Longrightarrow>
     \<exists>i \<in> set new. code i = c \<and> orZero (map_of old c) < orZero (uses i)"
  by (induction new) (auto simp: Let_def split: if_splits)

lemma increment_scan_first:
  "\<forall>i \<in> set pre. orZero (uses i) \<le> orZero (map_of old (code i)) \<Longrightarrow>
   orZero (map_of old (code x)) < orZero (uses x) \<Longrightarrow>
   increment_scan old (pre @ x # post) = Some (code x)"
  by (induction pre) (auto simp: Let_def)

lemma disappearance_scan_None_iff:
  "disappearance_scan old new = None \<longleftrightarrow> (\<forall>k \<in> set (map fst old). k \<in> set (map code new))"
  by (induction old new rule: disappearance_scan.induct) auto

lemma disappearance_scan_Some_D:
  "disappearance_scan old new = Some c \<Longrightarrow> c \<in> set (map fst old) \<and> c \<notin> set (map code new)"
  by (induction old new rule: disappearance_scan.induct) (auto split: if_splits)

lemma attribution_step1:
  "increment_scan old new = Some c \<Longrightarrow> c \<noteq> [] \<Longrightarrow>
   attribution old new q w = (Some c, emit (Console LOG) w)"
  by (simp add: attribution_def step1_def step2_def fallback_def truthy_def)

lemma attribution_step2:
  "increment_scan old new = None \<Longrightarrow> disappearance_scan old new = Some c \<Longrightarrow> c \<noteq> [] \<Longrightarrow>
   attribution old new q w = (Some c, emit (Console LOG) w)"
  by (simp add: attribution_def step1_def step2_def fallback_def truthy_def)

lemma sole_increase_scan:
  assumes d: "distinct (map code new)" and s: "sole_increase old new c"
    and f: "no_fresh_use old new"
  shows "increment_scan old new = Some c"
proof -
  from s have cin: "c \<in> codes new" and inc: "oldCount old c < newCount new c"
    by (simp_all add: sole_increase_def)
  from cin obtain i where i: "i \<in> set new" "code i = c" by (auto simp: codes_def)
  with d inc have "orZero (map_of old (code i)) < orZero (uses i)"
    using newCount_entry [of new i] by (simp add: oldCount_def)
  with i have "increment_scan old new \<noteq> None"
    by (auto simp: increment_scan_None_iff not_le)
  then obtain k where k: "increment_scan old new = Some k" by auto
  then obtain j where j: "j \<in> set new" "code j = k" "orZero (map_of old k) < orZero (uses j)"
    using increment_scan_Some_D by blast
  with d have nk: "oldCount old k < newCount new k" "k \<in> codes new"
    using newCount_entry [of new j] by (auto simp: oldCount_def codes_def)
  have "k \<in> keys old"
  proof (rule ccontr)
    assume "k \<notin> keys old"
    then have "map_of old k = None" by (simp add: keys_def map_of_eq_None_iff)
    moreover from \<open>k \<notin> keys old\<close> nk f have "newCount new k \<le> 0" by (simp add: no_fresh_use_def)
    ultimately show False using nk by (simp add: oldCount_def orZero_def)
  qed
  with s nk have "k = c" by (simp add: sole_increase_def)
  with k show ?thesis by simp
qed

lemma sole_vanished_scan:
  assumes "sole_vanished old new c"
  shows "disappearance_scan old new = Some c"
proof -
  from assms have "disappearance_scan old new \<noteq> None"
    by (auto simp: disappearance_scan_None_iff sole_vanished_def keys_def codes_def)
  then obtain k where k: "disappearance_scan old new = Some k" by auto
  then have "k \<in> keys old" "k \<notin> codes new"
    using disappearance_scan_Some_D [of old new k] by (simp_all add: keys_def codes_def)
  with assms have "k = c" by (simp add: sole_vanished_def)
  with k show ?thesis by simp
qed

lemma no_increase_scan:
  assumes "distinct (map code new)" and "no_increase old new"
  shows "increment_scan old new = None"
  unfolding increment_scan_None_iff
proof
  fix i assume i: "i \<in> set new"
  then have "code i \<in> codes new" by (simp add: codes_def)
  with assms(2) have "newCount new (code i) \<le> oldCount old (code i)"
    by (simp add: no_increase_def)
  with assms(1) i show "orZero (uses i) \<le> orZero (map_of old (code i))"
    by (simp add: newCount_entry oldCount_def)
qed

lemma latest_None_iff: "latest rs = None \<longleftrightarrow> rs = []"
  by (induction rs) (auto split: option.splits)

lemma latest_Some_D:
  "latest rs = Some r \<Longrightarrow> r \<in> set rs \<and> (\<forall>r' \<in> set rs. created_at r' \<le> created_at r)"
proof (induction rs arbitrary: r)
  case Nil
  then show ?case by simp
next
  case (Cons a rs)
  show ?case
  proof (cases "latest rs")
    case None
    then have "rs = []" by (simp add: latest_None_iff)
    with Cons.prems show ?thesis by simp
  next
    case (Some b)
    from Cons.IH [OF Some] have b: "b \<in> set rs" "\<forall>r' \<in> set rs. created_at r' \<le> created_at b"
      by simp_all
    show ?thesis
    proof (cases "created_at b > created_at a")
      case True
      with Cons.prems Some have "r = b" by simp
      with b True show ?thesis by auto
    next
      case False
      with Cons.prems Some have "r = a" by simp
      with b False show ?thesis by fastforce
    qed
  qed
qed

lemma lookupMostRecentPending_None_iff:
  "lookupMostRecentPending tbl = None \<longleftrightarrow> \<not> has_pending tbl"
  by (auto simp: lookupMostRecentPending_def latest_None_iff has_pending_def filter_empty_conv)

lemma lookupMostRecentPending_Some_D:
  "lookupMostRecentPending tbl = Some r \<Longrightarrow> most_recent_pending tbl r"
  unfolding lookupMostRecentPending_def most_recent_pending_def
  by (drule latest_Some_D) auto

lemma attribution_fallback:
  "increment_scan old new = None \<Longrightarrow> disappearance_scan old new = None \<Longrightarrow>
   fst (attribution old new queryOk w) =
     (if queryOk then map_option invite_code (lookupMostRecentPending (invites w)) else None)"
  by (simp add: attribution_def step1_def step2_def fallback_def truthy_def emit_def Let_def
      split: option.splits)

section \<open>The grant and the ledger\<close>

lemma unique_codes_eq:
  "unique_codes tbl \<Longrightarrow> a \<in> set tbl \<Longrightarrow> b \<in> set tbl \<Longrightarrow> invite_code a = invite_code b \<Longrightarrow> a = b"
  by (auto simp: unique_codes_def distinct_map dest: inj_onD)

lemma lookupPendingByCode_Cons_D:
  "lookupPendingByCode tbl c = r # rest \<Longrightarrow> r \<in> set tbl \<and> invite_code r = c \<and> status r = PENDING"
proof -
  assume "lookupPendingByCode tbl c = r # rest"
  then have "r \<in> set (filter (\<lambda>r. invite_code r = c \<and> status r = PENDING) tbl)"
    by (simp add: lookupPendingByCode_def)
  then show ?thesis by simp
qed

lemma lookupPendingByCode_Nil_iff:
  "lookupPendingByCode tbl c = [] \<longleftrightarrow> (\<forall>r \<in> set tbl. invite_code r = c \<longrightarrow> status r \<noteq> PENDING)"
  by (auto simp: lookupPendingByCode_def filter_empty_conv)

lemma asignar_invites:
  "invites (snd (asignarRolPorInvite env member c w)) = invites w
   \<or> (\<exists>r rest. lookupPendingByCode (invites w) c = r # rest
        \<and> invites (snd (asignarRolPorInvite env member c w))
            = markUsed (invites w) (usedNow env) (user_id member) c)"
  by (simp add: asignarRolPorInvite_def emit_def Let_def split: list.splits option.splits)

lemma asignar_inviteCache:
  "inviteCache (snd (asignarRolPorInvite env member c w)) = inviteCache w"
  by (simp add: asignarRolPorInvite_def emit_def Let_def split: list.splits option.splits)

lemma asignar_not_pending:
  "lookupPendingByCode (invites w) c = [] \<Longrightarrow>
   asignarRolPorInvite env member c w =
     (if selectOk env then NotPending else Caught,
      w\<lparr>trace := trace w @ [Console LOG, QueryPendingByCode c,
                             Console (if selectOk env then LOG else ERROR)]\<rparr>)"
  by (simp add: asignarRolPorInvite_def emit_def Let_def)

lemma markUsed_nth:
  "i < length tbl \<Longrightarrow>
   markUsed tbl t m c ! i =
     (if invite_code (tbl ! i) = c
      then (tbl ! i)\<lparr>status := USED, used_at := Some t, member_id := Some m\<rparr>
      else tbl ! i)"
  by (simp add: markUsed_def)

text \<open>The two parts, one after the other, are the function.\<close>

lemma asignar_phases:
  "asignarRolPorInvite env member c w =
     (case asignar_until_update env member c w of
        (Some out, w1) \<Rightarrow> (out, w1)
      | (None, w1) \<Rightarrow> asignar_update env member c w1)"
  by (simp add: asignarRolPorInvite_def asignar_until_update_def asignar_update_def Let_def
      split: list.splits option.splits)

section \<open>The cache after a join\<close>

lemma update_fresh: "k \<notin> fst ` set al \<Longrightarrow> AList.update k v al = al @ [(k, v)]"
  by (induction al) auto

lemma foldl_update_distinct:
  "distinct (map fst acc @ map code coll) \<Longrightarrow>
   foldl (\<lambda>m i. AList.update (code i) (orZero (uses i)) m) acc coll
     = acc @ map (\<lambda>i. (code i, orZero (uses i))) coll"
proof (induction coll arbitrary: acc)
  case Nil
  then show ?case by simp
next
  case (Cons a coll)
  from Cons.prems have f: "code a \<notin> fst ` set acc" by auto
  from Cons.prems have "distinct (map fst (acc @ [(code a, orZero (uses a))]) @ map code coll)"
    by auto
  from Cons.IH [OF this] f show ?case by (simp add: update_fresh)
qed

lemma snapshot_of_distinct:
  "distinct (map code coll) \<Longrightarrow> snapshot_of coll = map (\<lambda>i. (code i, orZero (uses i))) coll"
  using foldl_update_distinct [of "[]" coll] by (simp add: snapshot_of_def)

lemma attribution_inviteCache:
  "inviteCache (snd (attribution old new q w)) = inviteCache w"
  by (simp add: attribution_def step1_def step2_def fallback_def emit_def Let_def
      split: option.splits prod.splits)

lemma asignar_inviteCache_eq:
  "asignarRolPorInvite env member c w = (r, w') \<Longrightarrow> inviteCache w' = inviteCache w"
  using asignar_inviteCache [of env member c w] by simp

lemma guildMemberAdd_cache:
  "fetched env = Some new \<Longrightarrow>
   inviteCache (snd (guildMemberAdd env member w)) (guild_id (guild member)) = Some (snapshot_of new)"
  by (auto simp: guildMemberAdd_def Let_def emit_def
      split: prod.splits option.splits dest!: asignar_inviteCache_eq)

section \<open>The ledger after an issuance\<close>

lemma lookupPendingByEmail_filter:
  "lookupPendingByEmail tbl e = filter (\<lambda>r. email r = e) (filter (\<lambda>r. status r = PENDING) tbl)"
  by (simp add: lookupPendingByEmail_def conj_commute)

lemma distinct_map_iff_filter:
  "distinct (map f xs) \<longleftrightarrow> (\<forall>y. length (filter (\<lambda>x. f x = y) xs) \<le> 1)"
proof (induction xs)
  case Nil
  show ?case by simp
next
  case (Cons a xs)
  show ?case
  proof
    assume d: "distinct (map f (a # xs))"
    then have n: "\<forall>x \<in> set xs. f x \<noteq> f a" by (metis distinct.simps(2) imageI list.simps(9) set_map)
    then have "filter (\<lambda>x. f x = f a) xs = []" by (simp add: filter_empty_conv)
    with d Cons.IH show "\<forall>y. length (filter (\<lambda>x. f x = y) (a # xs)) \<le> 1" by auto
  next
    assume h: "\<forall>y. length (filter (\<lambda>x. f x = y) (a # xs)) \<le> 1"
    then have "length (filter (\<lambda>x. f x = f a) (a # xs)) \<le> 1" by blast
    then have "filter (\<lambda>x. f x = f a) xs = []" by simp
    then have n: "f a \<notin> f ` set xs" by (auto simp: filter_empty_conv)
    have "\<forall>y. length (filter (\<lambda>x. f x = y) xs) \<le> 1"
    proof
      fix y
      from h have "length (filter (\<lambda>x. f x = y) (a # xs)) \<le> 1" by blast
      then show "length (filter (\<lambda>x. f x = y) xs) \<le> 1" by (simp split: if_splits)
    qed
    with Cons.IH n show "distinct (map f (a # xs))" by simp
  qed
qed

text \<open>The definition says what its name says: no email has two PENDING rows.\<close>

lemma one_pending_per_email_iff:
  "one_pending_per_email tbl \<longleftrightarrow> (\<forall>e. length (lookupPendingByEmail tbl e) \<le> 1)"
  unfolding one_pending_per_email_def lookupPendingByEmail_filter
  by (rule distinct_map_iff_filter)

lemma distinct_map_filter_single:
  "distinct (map f xs) \<Longrightarrow> x \<in> set xs \<Longrightarrow> filter (\<lambda>y. f y = f x) xs = [x]"
proof (induction xs)
  case Nil
  then show ?case by simp
next
  case (Cons a xs)
  show ?case
  proof (cases "a = x")
    case True
    with Cons.prems have "f x \<notin> f ` set xs" by simp
    then have "\<forall>y \<in> set xs. f y \<noteq> f x" by (metis imageI)
    then have "filter (\<lambda>y. f y = f x) xs = []" by (simp add: filter_empty_conv)
    with True show ?thesis by simp
  next
    case False
    with Cons.prems have "x \<in> set xs" "f a \<noteq> f x" by auto
    with Cons show ?thesis by simp
  qed
qed

lemma one_pending_single:
  assumes "one_pending_per_email tbl" and "lookupPendingByEmail tbl e = r # rest"
  shows "rest = [] \<and> r \<in> set tbl \<and> email r = e \<and> status r = PENDING"
proof -
  from assms(2) have "r \<in> set (lookupPendingByEmail tbl e)" by simp
  then have r: "r \<in> set tbl" "email r = e" "status r = PENDING"
    by (simp_all add: lookupPendingByEmail_def)
  then have "r \<in> set (filter (\<lambda>r. status r = PENDING) tbl)" by simp
  with assms(1) have "filter (\<lambda>y. email y = email r) (filter (\<lambda>r. status r = PENDING) tbl) = [r]"
    unfolding one_pending_per_email_def by (rule distinct_map_filter_single)
  with r assms(2) show ?thesis by (simp add: lookupPendingByEmail_filter)
qed

lemma one_pending_lookup:
  assumes "one_pending_per_email tbl" and "r \<in> set tbl" and "status r = PENDING"
  shows "lookupPendingByEmail tbl (email r) = [r]"
proof -
  from assms(2,3) have "r \<in> set (filter (\<lambda>r. status r = PENDING) tbl)" by simp
  with assms(1) have "filter (\<lambda>y. email y = email r) (filter (\<lambda>r. status r = PENDING) tbl) = [r]"
    unfolding one_pending_per_email_def by (rule distinct_map_filter_single)
  then show ?thesis by (simp add: lookupPendingByEmail_filter)
qed

lemma markExpired_pending:
  "filter (\<lambda>r. status r = PENDING) (markExpired tbl c)
     = filter (\<lambda>r. invite_code r \<noteq> c) (filter (\<lambda>r. status r = PENDING) tbl)"
  by (induction tbl) (auto simp: markExpired_def)

lemma markExpired_one_pending:
  "one_pending_per_email tbl \<Longrightarrow> one_pending_per_email (markExpired tbl c)"
  unfolding one_pending_per_email_def markExpired_pending by (rule distinct_map_filter)

lemma create_one_pending:
  "one_pending_per_email tbl \<Longrightarrow> lookupPendingByEmail tbl e = [] \<Longrightarrow>
   one_pending_per_email (create tbl c rid e t x)"
  by (auto simp: one_pending_per_email_def create_def lookupPendingByEmail_def filter_empty_conv)

lemma markExpired_lookup:
  assumes "one_pending_per_email tbl" and "lookupPendingByEmail tbl e = r # rest"
  shows "lookupPendingByEmail (markExpired tbl (invite_code r)) e = []"
proof -
  from assms have "lookupPendingByEmail tbl e = [r]" using one_pending_single by blast
  then have "filter (\<lambda>x. email x = e) (filter (\<lambda>r. status r = PENDING) tbl) = [r]"
    by (simp add: lookupPendingByEmail_filter)
  then have "filter (\<lambda>x. invite_code x \<noteq> invite_code r)
               (filter (\<lambda>x. email x = e) (filter (\<lambda>r. status r = PENDING) tbl)) = []"
    by simp
  then show ?thesis
    by (auto simp: lookupPendingByEmail_filter markExpired_pending filter_empty_conv)
qed

text \<open>The ledger after the first part of the route.\<close>

lemma checkExisting_invites:
  "checkExisting ttl env e w = (res, w1) \<Longrightarrow>
   (case lookupPendingByEmail (invites w) e of
      [] \<Rightarrow> invites w1 = invites w
    | r # _ \<Rightarrow>
        if res = Inr None then invites w1 = markExpired (invites w) (invite_code r)
                               \<and> \<not> checkNow env < created_at r + ttl * 1000
        else invites w1 = invites w)"
  by (auto simp: checkExisting_def emit_def Let_def split: if_splits list.splits)

lemma checkExisting_None_lookup:
  assumes "one_pending_per_email (invites w)" and "checkExisting ttl env e w = (Inr None, w1)"
  shows "one_pending_per_email (invites w1) \<and> lookupPendingByEmail (invites w1) e = []"
proof (cases "lookupPendingByEmail (invites w) e")
  case Nil
  with checkExisting_invites [OF assms(2)] assms(1) show ?thesis by simp
next
  case (Cons r rest)
  with checkExisting_invites [OF assms(2)]
  have "invites w1 = markExpired (invites w) (invite_code r)" by simp
  with assms(1) Cons show ?thesis by (simp add: markExpired_one_pending markExpired_lookup)
qed

lemma createNew_invites:
  "createNew ttl env e rid w = (res, w1) \<Longrightarrow>
   invites w1 = invites w
   \<or> (\<exists>c. createInvite env = Some c
          \<and> invites w1 = create (invites w) c rid e (insertNow env) (insertNow env + ttl * 1000))"
  by (auto simp: createNew_def emit_def Let_def split: if_splits option.splits)

lemma sendMail_invites: "sendMail env e url w = (res, w1) \<Longrightarrow> invites w1 = invites w"
  by (auto simp: sendMail_def emit_def Let_def split: send_result.splits)

lemma caught_invites: "invites (snd (caught w)) = invites w"
  by (simp add: caught_def emit_def)

lemma generate_invite_one_pending:
  assumes "one_pending_per_email (invites w)"
  shows "one_pending_per_email (invites (snd (generate_invite ttl env ef rf w)))"
proof (cases "\<exists>e rid. ef = Some e \<and> rf = Some rid \<and> e \<noteq> [] \<and> rid \<noteq> []")
  case False
  then have "snd (generate_invite ttl env ef rf w) = w"
    by (auto simp: generate_invite_def split: option.splits)
  with assms show ?thesis by simp
next
  case True
  then obtain e rid where f: "ef = Some e" "rf = Some rid" "e \<noteq> []" "rid \<noteq> []" by blast
  obtain res w1 where c: "checkExisting ttl env e w = (res, w1)" by (cases "checkExisting ttl env e w")
  show ?thesis
  proof (cases res)
    case (Inl u)
    with c checkExisting_invites [OF c] assms f show ?thesis
      by (auto simp: generate_invite_def caught_invites split: list.splits)
  next
    case (Inr o1)
    show ?thesis
    proof (cases o1)
      case (Some url)
      obtain r2 w2 where s: "sendMail env e url w1 = (r2, w2)" by (cases "sendMail env e url w1")
      from c Inr Some checkExisting_invites [OF c] have "invites w1 = invites w"
        by (auto split: list.splits)
      with sendMail_invites [OF s] have "invites w2 = invites w" by simp
      with c Inr Some s f assms show ?thesis
        by (auto simp: generate_invite_def caught_invites split: sum.splits)
    next
      case None
      with c Inr have c': "checkExisting ttl env e w = (Inr None, w1)" by simp
      from checkExisting_None_lookup [OF assms c']
      have i1: "one_pending_per_email (invites w1)" "lookupPendingByEmail (invites w1) e = []"
        by simp_all
      obtain r2 w2 where n: "createNew ttl env e rid w1 = (r2, w2)" by (cases "createNew ttl env e rid w1")
      from createNew_invites [OF n] i1 have i2: "one_pending_per_email (invites w2)"
        by (auto simp: create_one_pending)
      show ?thesis
      proof (cases r2)
        case (Inl a)
        with c' n f i2 show ?thesis
          by (auto simp: generate_invite_def caught_invites split: option.splits)
      next
        case (Inr url)
        obtain r3 w3 where s: "sendMail env e url w2 = (r3, w3)" by (cases "sendMail env e url w2")
        from sendMail_invites [OF s] i2 have "one_pending_per_email (invites w3)" by simp
        with c' n f Inr s show ?thesis
          by (auto simp: generate_invite_def caught_invites split: sum.splits)
      qed
    qed
  qed
qed

lemma generate_invite_valid:
  assumes "lookupPendingByEmail (invites w) e = [r]" and "e \<noteq> []" and "roleId \<noteq> []"
    and "selectEmailOk env" and "checkNow env < created_at r + ttl * 1000"
  shows "snd (generate_invite ttl env (Some e) (Some roleId) w) =
           w\<lparr>trace := trace w @ [QueryPendingByEmail e, Console LOG, EmailsSend e,
                                   Console (if send env = Sent then LOG else ERROR)]\<rparr>"
  using assms
  by (simp add: generate_invite_def checkExisting_def sendMail_def caught_def emit_def Let_def
      split: send_result.splits)

lemma generate_invite_update_fails:
  assumes "lookupPendingByEmail (invites w) e = [r]" and "e \<noteq> []" and "roleId \<noteq> []"
    and "selectEmailOk env" and "created_at r + ttl * 1000 \<le> checkNow env"
    and "\<not> updateExpiredOk env"
  shows "generate_invite ttl env (Some e) (Some roleId) w =
           (Status500,
            w\<lparr>trace := trace w @ [QueryPendingByEmail e, Console LOG,
                                   QueryUpdateExpired (invite_code r), Console ERROR]\<rparr>)"
  using assms
  by (simp add: generate_invite_def checkExisting_def caught_def emit_def Let_def)

lemma generate_invite_replaces:
  assumes "lookupPendingByEmail (invites w) e = [r]" and "e \<noteq> []" and "roleId \<noteq> []"
    and "selectEmailOk env" and "created_at r + ttl * 1000 \<le> checkNow env"
    and "updateExpiredOk env" and "guildFound env" and "channelOk env"
    and "createInvite env = Some c" and "insertOk env"
  shows "snd (generate_invite ttl env (Some e) (Some roleId) w) =
           w\<lparr>invites := create (markExpired (invites w) (invite_code r)) c roleId e
                          (insertNow env) (insertNow env + ttl * 1000),
             trace := trace w @ [QueryPendingByEmail e, Console LOG,
                                 QueryUpdateExpired (invite_code r), Console LOG, CreateInvite,
                                 Console LOG, QueryInsert c, EmailsSend e,
                                 Console (if send env = Sent then LOG else ERROR)]\<rparr>"
  using assms
  by (simp add: generate_invite_def checkExisting_def createNew_def sendMail_def caught_def
      emit_def Let_def split: send_result.splits)

lemma generate_invite_expires_only:
  assumes "lookupPendingByEmail (invites w) e = [r]" and "e \<noteq> []" and "roleId \<noteq> []"
    and "selectEmailOk env" and "created_at r + ttl * 1000 \<le> checkNow env"
    and "updateExpiredOk env" and "\<not> creation_succeeds env"
  shows "invites (snd (generate_invite ttl env (Some e) (Some roleId) w))
           = markExpired (invites w) (invite_code r)"
  using assms
  by (auto simp: generate_invite_def checkExisting_def createNew_def caught_def
      emit_def Let_def creation_succeeds_def split: option.splits)

text \<open>The other handlers that write to the table keep the emails of its PENDING rows distinct.\<close>

lemma markUsed_pending:
  "filter (\<lambda>r. status r = PENDING) (markUsed tbl t m c)
     = filter (\<lambda>r. invite_code r \<noteq> c) (filter (\<lambda>r. status r = PENDING) tbl)"
  by (induction tbl) (auto simp: markUsed_def)

lemma markUsed_one_pending:
  "one_pending_per_email tbl \<Longrightarrow> one_pending_per_email (markUsed tbl t m c)"
  unfolding one_pending_per_email_def markUsed_pending by (rule distinct_map_filter)

lemma asignar_one_pending:
  "one_pending_per_email (invites w) \<Longrightarrow>
   one_pending_per_email (invites (snd (asignarRolPorInvite env member c w)))"
  using asignar_invites [of env member c w] by (auto simp: markUsed_one_pending)

lemma attribution_invites: "invites (snd (attribution old new q w)) = invites w"
  by (simp add: attribution_def step1_def step2_def fallback_def emit_def Let_def
      split: option.splits prod.splits)

lemma guildMemberAdd_one_pending:
  assumes "one_pending_per_email (invites w)"
  shows "one_pending_per_email (invites (snd (guildMemberAdd env member w)))"
proof (cases "fetched env")
  case None
  with assms show ?thesis by (simp add: guildMemberAdd_def Let_def emit_def)
next
  case (Some new)
  obtain u w1 where a: "attribution (cached w (guild_id (guild member))) new (recentPendingOk env)
      (emit (InvitesFetch (guild_id (guild member))) w) = (u, w1)"
    by (cases "attribution (cached w (guild_id (guild member))) new (recentPendingOk env)
      (emit (InvitesFetch (guild_id (guild member))) w)")
  with attribution_invites [of "cached w (guild_id (guild member))" new "recentPendingOk env"
      "emit (InvitesFetch (guild_id (guild member))) w"]
  have "invites w1 = invites w" by (simp add: emit_def)
  with assms have i: "one_pending_per_email (invites w1)" by simp
  have j: "one_pending_per_email (invites w')"
    if "asignarRolPorInvite e mb c (w1\<lparr>inviteCache := m, trace := t\<rparr>) = (r, w')"
    for e mb c m t r w'
    using that i asignar_one_pending [of "w1\<lparr>inviteCache := m, trace := t\<rparr>" e mb c]
    by simp
  from Some a i show ?thesis
    by (auto simp: guildMemberAdd_def Let_def emit_def split: option.splits prod.splits
        dest: j)
qed

text \<open>
  The edges the statements below leave out. An empty code counts as none: with the old
  snapshot holding only the empty code and the new one empty, the ledger's PENDING code is
  the attribution. And the UPDATE alone, sent for the code of a USED row, would stamp the
  row again.
\<close>

lemma empty_code_is_no_code:
  "fst (attribution [('''', 0)] [] True
     (world0\<lparr>invites := [row ''FALLBACK1'' ''R1'' ''b@x.com'' PENDING 5]\<rparr>)) = Some ''FALLBACK1''"
  by (simp add: attribution_def step1_def step2_def fallback_def truthy_def emit_def
      lookupMostRecentPending_def row_def world0_def)

lemma markUsed_alone_overwrites:
  "markUsed [(row ''SPENT1'' ''R1'' ''c@x.com'' USED 9)\<lparr>used_at := Some 20, member_id := Some ''M0''\<rparr>]
     1000 ''M1'' ''SPENT1''
   = [(row ''SPENT1'' ''R1'' ''c@x.com'' USED 9)\<lparr>used_at := Some 1000, member_id := Some ''M1''\<rparr>]"
  by (simp add: markUsed_def row_def)

section \<open>Claims about the attribution\<close>

text \<open>
  C1, as the specification has it: when exactly one code that is in both snapshots has a
  greater use count in the new one, and no code of the old snapshot is missing from the
  new one, the attribution is that code. This fails: the increment scan reads a code
  that the old snapshot does not have as used 0 times, so a code that is only in the new
  snapshot, with a positive count, is returned when the scan meets it first. Here the old
  snapshot is A:0 and the fetched collection is B:1, A:1; the attribution is B.
\<close>

theorem increment_attribution_counterexample:
  "distinct (map code [\<lparr>code = ''B'', uses = Some 1\<rparr>, \<lparr>code = ''A'', uses = Some 1\<rparr>])
   \<and> sole_increase [(''A'', 0)]
       [\<lparr>code = ''B'', uses = Some 1\<rparr>, \<lparr>code = ''A'', uses = Some 1\<rparr>] ''A''
   \<and> none_vanished [(''A'', 0)]
       [\<lparr>code = ''B'', uses = Some 1\<rparr>, \<lparr>code = ''A'', uses = Some 1\<rparr>]
   \<and> fst (attribution [(''A'', 0)]
       [\<lparr>code = ''B'', uses = Some 1\<rparr>, \<lparr>code = ''A'', uses = Some 1\<rparr>] True world0)
     = Some ''B''"
  by (simp add: sole_increase_def none_vanished_def keys_def codes_def oldCount_def
      newCount_def orZero_def attribution_def step1_def step2_def fallback_def truthy_def
      world0_def)

text \<open>
  C1, amended: when exactly one code that is in both snapshots has a greater use count in
  the new one, no code of the old snapshot is missing from the new one, and no code that
  is only in the new snapshot has a positive use count, the attribution is that code,
  whatever the ledger holds and whether or not it can be read. The fetched collection has
  one entry per code and the code is not the empty string (which \<^verbatim>\<open>!usedCode\<close> takes for
  no code).
\<close>

theorem increment_attribution:
  assumes "distinct (map code new)" and "c \<noteq> []"
    and "sole_increase old new c" and "none_vanished old new" and "no_fresh_use old new"
  shows "fst (attribution old new queryOk w) = Some c"
  using assms sole_increase_scan [of new old c] attribution_step1 [of old new c queryOk w]
  by simp

theorem increment_attribution_witness:
  "distinct (map code [\<lparr>code = ''ABC123'', uses = Some 1\<rparr>])
   \<and> sole_increase [(''ABC123'', 0)] [\<lparr>code = ''ABC123'', uses = Some 1\<rparr>] ''ABC123''
   \<and> none_vanished [(''ABC123'', 0)] [\<lparr>code = ''ABC123'', uses = Some 1\<rparr>]
   \<and> no_fresh_use [(''ABC123'', 0)] [\<lparr>code = ''ABC123'', uses = Some 1\<rparr>]
   \<and> fst (attribution [(''ABC123'', 0)] [\<lparr>code = ''ABC123'', uses = Some 1\<rparr>] True world0)
     = Some ''ABC123''"
proof -
  have h: "distinct (map code [\<lparr>code = ''ABC123'', uses = Some 1\<rparr>])"
    "''ABC123'' \<noteq> []"
    "sole_increase [(''ABC123'', 0)] [\<lparr>code = ''ABC123'', uses = Some 1\<rparr>] ''ABC123''"
    "none_vanished [(''ABC123'', 0)] [\<lparr>code = ''ABC123'', uses = Some 1\<rparr>]"
    "no_fresh_use [(''ABC123'', 0)] [\<lparr>code = ''ABC123'', uses = Some 1\<rparr>]"
    by (simp_all add: sole_increase_def none_vanished_def no_fresh_use_def keys_def codes_def
        oldCount_def newCount_def orZero_def)
  from increment_attribution [OF h, of True world0] h show ?thesis by simp
qed

text \<open>
  C2: when exactly one code of the old snapshot is missing from the new one and no code
  of the new snapshot has a use count above its old one (a code the old snapshot lacks
  counting as 0, as the scan reads it), the attribution is the vanished code, whatever the
  ledger holds; the increment scan found nothing there. And whenever the increment scan
  does find a code, that code is the attribution: the disappearance scan is not consulted.
  The fetched collection has one entry per code and codes are not the empty string.
\<close>

theorem disappearance_attribution:
  assumes "distinct (map code new)" and "c \<noteq> []"
    and "sole_vanished old new c" and "no_increase old new"
  shows "fst (attribution old new queryOk w) = Some c
         \<and> increment_scan old new = None
         \<and> (\<forall>k. increment_scan oldB newB = Some k \<and> k \<noteq> []
                \<longrightarrow> fst (attribution oldB newB queryOk w) = Some k)"
  using assms sole_vanished_scan [of old new c] no_increase_scan [of new old]
    attribution_step2 [of old new c queryOk w]
  by (simp add: attribution_step1)

theorem disappearance_attribution_witness:
  "distinct (map code ([] :: invite list))
   \<and> sole_vanished [(''XYZ789'', 0)] [] ''XYZ789''
   \<and> no_increase [(''XYZ789'', 0)] []
   \<and> fst (attribution [(''XYZ789'', 0)] [] True world0) = Some ''XYZ789''
   \<and> fst (attribution [(''GONE'', 0), (''KEPT'', 0)] [\<lparr>code = ''KEPT'', uses = Some 1\<rparr>]
            True world0) = Some ''KEPT''"
proof -
  have h: "distinct (map code ([] :: invite list))" "''XYZ789'' \<noteq> []"
    "sole_vanished [(''XYZ789'', 0)] [] ''XYZ789''" "no_increase [(''XYZ789'', 0)] []"
    by (simp_all add: sole_vanished_def no_increase_def keys_def codes_def)
  have s: "increment_scan [(''GONE'', 0), (''KEPT'', 0)] [\<lparr>code = ''KEPT'', uses = Some 1\<rparr>]
             = Some ''KEPT'' \<and> ''KEPT'' \<noteq> []"
    by (simp add: orZero_def)
  from disappearance_attribution [OF h, of True world0 "[(''GONE'', 0), (''KEPT'', 0)]"
      "[\<lparr>code = ''KEPT'', uses = Some 1\<rparr>]"] h s
  show ?thesis by blast
qed

text \<open>
  C3: when neither scan yields a code and the fallback query is answered, the attribution
  is the code of a PENDING row of the ledger than which no PENDING row was created later,
  and there is no attribution exactly when the ledger has no PENDING row. When the query
  fails, the \<^verbatim>\<open>catch\<close> leaves no attribution.
\<close>

theorem fallback_attribution:
  assumes "increment_scan old new = None" and "disappearance_scan old new = None"
  shows "(case fst (attribution old new True w) of
            None \<Rightarrow> \<not> has_pending (invites w)
          | Some c \<Rightarrow> (\<exists>r. most_recent_pending (invites w) r \<and> invite_code r = c))
         \<and> fst (attribution old new False w) = None"
  using assms
  by (auto simp: attribution_fallback lookupMostRecentPending_None_iff
      dest: lookupMostRecentPending_Some_D split: option.splits)

theorem fallback_attribution_witness:
  "increment_scan [] [] = None \<and> disappearance_scan [] [] = None
   \<and> fst (attribution [] [] True
       (world0\<lparr>invites := [row ''EARLY1'' ''R1'' ''a@x.com'' PENDING 3,
                            row ''FALLBACK1'' ''R1'' ''b@x.com'' PENDING 5,
                            row ''SPENT1'' ''R1'' ''c@x.com'' USED 9]\<rparr>)) = Some ''FALLBACK1''
   \<and> fst (attribution [] [] True world0) = None
   \<and> \<not> has_pending (invites world0)"
proof -
  have h: "increment_scan [] [] = None" "disappearance_scan [] [] = None" by simp_all
  have e: "fst (attribution [] [] True
       (world0\<lparr>invites := [row ''EARLY1'' ''R1'' ''a@x.com'' PENDING 3,
                            row ''FALLBACK1'' ''R1'' ''b@x.com'' PENDING 5,
                            row ''SPENT1'' ''R1'' ''c@x.com'' USED 9]\<rparr>)) = Some ''FALLBACK1''"
    by (simp add: attribution_def step1_def step2_def fallback_def truthy_def emit_def
        lookupMostRecentPending_def row_def world0_def)
  have n: "fst (attribution [] [] True world0) = None"
    by (simp add: attribution_def step1_def step2_def fallback_def truthy_def emit_def
        lookupMostRecentPending_def world0_def)
  from fallback_attribution [OF h, of world0] h e n show ?thesis by simp
qed

text \<open>
  C10: the increment scan reads a code that the old snapshot lacks as used 0 times. When a
  code is only in the new snapshot, with a positive use count, and no entry before it in
  the collection has a count above its old one, the attribution is that code, and it is
  step 1's: the handler's state after the three steps is the one after step 1, with no
  query of the ledger. The code is not the empty string.
\<close>

theorem fresh_code_attribution:
  assumes "code x \<notin> keys old" and "0 < orZero (uses x)" and "code x \<noteq> []"
    and "\<forall>i \<in> set pre. orZero (uses i) \<le> oldCount old (code i)"
  shows "increment_scan old (pre @ x # post) = Some (code x)
         \<and> attribution old (pre @ x # post) queryOk w = step1 old (pre @ x # post) w
         \<and> step1 old (pre @ x # post) w = (Some (code x), emit (Console LOG) w)"
proof -
  from assms(1) have "map_of old (code x) = None"
    by (simp add: keys_def map_of_eq_None_iff)
  with assms(2) have "orZero (map_of old (code x)) < orZero (uses x)" by (simp add: orZero_def)
  with assms(4) have s: "increment_scan old (pre @ x # post) = Some (code x)"
    by (intro increment_scan_first) (simp_all add: oldCount_def)
  with assms(3) show ?thesis by (simp add: attribution_step1 step1_def)
qed

theorem fresh_code_attribution_witness:
  "code \<lparr>code = ''NEW1'', uses = Some 1\<rparr> \<notin> keys [(''OLD1'', 2), (''GONE1'', 0)]
   \<and> 0 < orZero (uses \<lparr>code = ''NEW1'', uses = Some 1\<rparr>)
   \<and> fst (attribution [(''OLD1'', 2), (''GONE1'', 0)]
       [\<lparr>code = ''OLD1'', uses = Some 2\<rparr>, \<lparr>code = ''NEW1'', uses = Some 1\<rparr>] True
       (world0\<lparr>invites := [row ''FALLBACK1'' ''R1'' ''b@x.com'' PENDING 5]\<rparr>)) = Some ''NEW1''
   \<and> trace (snd (attribution [(''OLD1'', 2), (''GONE1'', 0)]
       [\<lparr>code = ''OLD1'', uses = Some 2\<rparr>, \<lparr>code = ''NEW1'', uses = Some 1\<rparr>] True
       (world0\<lparr>invites := [row ''FALLBACK1'' ''R1'' ''b@x.com'' PENDING 5]\<rparr>))) = [Console LOG]"
proof -
  have h: "code \<lparr>code = ''NEW1'', uses = Some 1\<rparr> \<notin> keys [(''OLD1'', 2), (''GONE1'', 0)]"
    "0 < orZero (uses \<lparr>code = ''NEW1'', uses = Some 1\<rparr>)"
    "code \<lparr>code = ''NEW1'', uses = Some 1\<rparr> \<noteq> []"
    "\<forall>i \<in> set [\<lparr>code = ''OLD1'', uses = Some 2\<rparr>].
        orZero (uses i) \<le> oldCount [(''OLD1'', 2), (''GONE1'', 0)] (code i)"
    by (simp_all add: keys_def orZero_def oldCount_def)
  from fresh_code_attribution [OF h, of "[]" True
      "world0\<lparr>invites := [row ''FALLBACK1'' ''R1'' ''b@x.com'' PENDING 5]\<rparr>"] h(1,2)
  show ?thesis by (simp add: emit_def world0_def)
qed

section \<open>Claims about the grant and the ledger\<close>

text \<open>
  C4, as the specification has it: marking as used the code of a row that is USED or
  EXPIRED changes nothing of that row. This fails: the UPDATE has no condition on the
  status, and only the PENDING-filtered SELECT at the start of \<^verbatim>\<open>asignarRolPorInvite\<close>
  guards it. Here two joins, of M1 and of M2, are attributed to the PENDING code ABC123
  and their calls overlap: both SELECTs find the row PENDING, the UPDATE of the first
  makes it USED by M1 at time 1000, and the UPDATE of the second, sent for a row that is
  USED by then, stamps it again, with M2 and 2000.
\<close>

theorem markUsed_only_pending_counterexample:
  "unique_codes [row ''ABC123'' ''R1'' ''a@x.com'' PENDING 0]
   \<and> invites (overlap_first_update
        (example_grant_env 9 True) (example_member False)
        ((example_grant_env 9 True)\<lparr>usedNow := 2000\<rparr>)
        ((example_member False)\<lparr>user_id := ''M2''\<rparr>) ''ABC123''
        (world0\<lparr>invites := [row ''ABC123'' ''R1'' ''a@x.com'' PENDING 0]\<rparr>))
     = [(row ''ABC123'' ''R1'' ''a@x.com'' PENDING 0)
          \<lparr>status := USED, used_at := Some 1000, member_id := Some ''M1''\<rparr>]
   \<and> invites (overlapping_grants
        (example_grant_env 9 True) (example_member False)
        ((example_grant_env 9 True)\<lparr>usedNow := 2000\<rparr>)
        ((example_member False)\<lparr>user_id := ''M2''\<rparr>) ''ABC123''
        (world0\<lparr>invites := [row ''ABC123'' ''R1'' ''a@x.com'' PENDING 0]\<rparr>))
     = [(row ''ABC123'' ''R1'' ''a@x.com'' PENDING 0)
          \<lparr>status := USED, used_at := Some 2000, member_id := Some ''M2''\<rparr>]"
  by (simp add: overlapping_grants_def overlap_first_update_def asignar_until_update_def
      asignar_update_def lookupPendingByCode_def markUsed_def emit_def Let_def unique_codes_def
      example_grant_env_def example_member_def row_def world0_def)

text \<open>
  C4, amended: for a row of the ledger that is USED or EXPIRED when a call of
  \<^verbatim>\<open>asignarRolPorInvite\<close> with its code starts, the call, run with no other write to the
  table between its SELECT and its end, changes nothing but the console and the record
  of the SELECT: the table, the roles and the cache are as before, so the row's status,
  \<open>used_at\<close> and \<open>member_id\<close> are. And no such call, with whatever code, changes a row
  that is not PENDING: only a PENDING row becomes USED. The table has its unique key on
  \<open>invite_code\<close>.
\<close>

theorem markUsed_only_pending:
  assumes u: "unique_codes (invites w)"
    and r: "r \<in> set (invites w)" "invite_code r = c" "status r = USED \<or> status r = EXPIRED"
  shows "snd (asignarRolPorInvite env member c w)
           = w\<lparr>trace := trace w @ [Console LOG, QueryPendingByCode c,
                                   Console (if selectOk env then LOG else ERROR)]\<rparr>
         \<and> (unique_codes (invites v) \<longrightarrow>
             length (invites (snd (asignarRolPorInvite env member k v))) = length (invites v)
             \<and> (\<forall>i < length (invites v). status (invites v ! i) \<noteq> PENDING \<longrightarrow>
                   invites (snd (asignarRolPorInvite env member k v)) ! i = invites v ! i))"
proof (intro conjI impI allI)
  have "lookupPendingByCode (invites w) c = []"
    unfolding lookupPendingByCode_Nil_iff
  proof (intro ballI impI)
    fix r' assume "r' \<in> set (invites w)" "invite_code r' = c"
    with u r have "r' = r" by (auto intro: unique_codes_eq)
    with r show "status r' \<noteq> PENDING" by auto
  qed
  then show "snd (asignarRolPorInvite env member c w)
           = w\<lparr>trace := trace w @ [Console LOG, QueryPendingByCode c,
                                   Console (if selectOk env then LOG else ERROR)]\<rparr>"
    by (simp add: asignar_not_pending)
next
  assume "unique_codes (invites v)"
  show "length (invites (snd (asignarRolPorInvite env member k v))) = length (invites v)"
    using asignar_invites [of env member k v] by (auto simp: markUsed_def)
next
  fix i
  assume uv: "unique_codes (invites v)" and i: "i < length (invites v)"
    and np: "status (invites v ! i) \<noteq> PENDING"
  from asignar_invites [of env member k v]
  show "invites (snd (asignarRolPorInvite env member k v)) ! i = invites v ! i"
  proof
    assume "invites (snd (asignarRolPorInvite env member k v)) = invites v"
    then show ?thesis by simp
  next
    assume "\<exists>r rest. lookupPendingByCode (invites v) k = r # rest
        \<and> invites (snd (asignarRolPorInvite env member k v))
            = markUsed (invites v) (usedNow env) (user_id member) k"
    then obtain p rest where p: "lookupPendingByCode (invites v) k = p # rest"
      and m: "invites (snd (asignarRolPorInvite env member k v))
            = markUsed (invites v) (usedNow env) (user_id member) k" by blast
    from p have pp: "p \<in> set (invites v)" "invite_code p = k" "status p = PENDING"
      using lookupPendingByCode_Cons_D by blast+
    have "invite_code (invites v ! i) \<noteq> k"
    proof
      assume "invite_code (invites v ! i) = k"
      with uv pp i have "invites v ! i = p" by (auto intro: unique_codes_eq)
      with pp np show False by simp
    qed
    with m i show ?thesis by (simp add: markUsed_nth)
  qed
qed


theorem markUsed_only_pending_witness:
  "unique_codes [(row ''SPENT1'' ''R1'' ''c@x.com'' USED 9)\<lparr>used_at := Some 20, member_id := Some ''M0''\<rparr>,
                 row ''ABC123'' ''R1'' ''a@x.com'' PENDING 10]
   \<and> invites (snd (asignarRolPorInvite (example_grant_env 9 True) (example_member False) ''SPENT1''
        (world0\<lparr>invites :=
           [(row ''SPENT1'' ''R1'' ''c@x.com'' USED 9)\<lparr>used_at := Some 20, member_id := Some ''M0''\<rparr>,
            row ''ABC123'' ''R1'' ''a@x.com'' PENDING 10]\<rparr>)))
     = [(row ''SPENT1'' ''R1'' ''c@x.com'' USED 9)\<lparr>used_at := Some 20, member_id := Some ''M0''\<rparr>,
        row ''ABC123'' ''R1'' ''a@x.com'' PENDING 10]
   \<and> invites (snd (asignarRolPorInvite (example_grant_env 9 True) (example_member False) ''ABC123''
        (world0\<lparr>invites :=
           [(row ''SPENT1'' ''R1'' ''c@x.com'' USED 9)\<lparr>used_at := Some 20, member_id := Some ''M0''\<rparr>,
            row ''ABC123'' ''R1'' ''a@x.com'' PENDING 10]\<rparr>)))
     = [(row ''SPENT1'' ''R1'' ''c@x.com'' USED 9)\<lparr>used_at := Some 20, member_id := Some ''M0''\<rparr>,
        (row ''ABC123'' ''R1'' ''a@x.com'' PENDING 10)
          \<lparr>status := USED, used_at := Some 1000, member_id := Some ''M1''\<rparr>]"
proof -
  let ?spent = "(row ''SPENT1'' ''R1'' ''c@x.com'' USED 9)\<lparr>used_at := Some 20, member_id := Some ''M0''\<rparr>"
  let ?tbl = "[?spent, row ''ABC123'' ''R1'' ''a@x.com'' PENDING 10]"
  let ?w = "world0\<lparr>invites := ?tbl\<rparr>"
  have h: "unique_codes (invites ?w)" "?spent \<in> set (invites ?w)"
    "invite_code ?spent = ''SPENT1''" "status ?spent = USED \<or> status ?spent = EXPIRED"
    by (simp_all add: unique_codes_def row_def)
  have g: "invites (snd (asignarRolPorInvite (example_grant_env 9 True) (example_member False)
             ''ABC123'' ?w))
           = [?spent, (row ''ABC123'' ''R1'' ''a@x.com'' PENDING 10)
                        \<lparr>status := USED, used_at := Some 1000, member_id := Some ''M1''\<rparr>]"
    by (simp add: asignarRolPorInvite_def lookupPendingByCode_def markUsed_def emit_def
        example_grant_env_def example_member_def row_def world0_def)
  from markUsed_only_pending [OF h, of "example_grant_env 9 True" "example_member False"] h(1) g
  show ?thesis by simp
qed

text \<open>
  C5: when the SELECT finds the PENDING row of the code and either the row's role is not
  in the guild's roles or its position is at or above the position of the bot's highest
  role, \<^verbatim>\<open>asignarRolPorInvite\<close> returns normally, having changed nothing but the trace:
  no role is added, the table is as before (the row is still PENDING), and what it wrote
  on the console are its opening line and one warning, no error.
\<close>

theorem refused_grant:
  assumes "selectOk env" and "lookupPendingByCode (invites w) c = r # rest"
    and "roles (guild member) (role_id r) = None
         \<or> (\<exists>rl h. roles (guild member) (role_id r) = Some rl \<and> botHighest env = Some h
                    \<and> h \<le> position rl)"
  shows "asignarRolPorInvite env member c w =
           (if roles (guild member) (role_id r) = None then RoleNotFound else HierarchyViolation,
            w\<lparr>trace := trace w @ [Console LOG, QueryPendingByCode c]
                         @ (if roles (guild member) (role_id r) = None then [] else [MembersFetch])
                         @ [Console WARN]\<rparr>)"
  using assms by (auto simp: asignarRolPorInvite_def emit_def Let_def)


theorem refused_grant_witness:
  "selectOk (example_grant_env 3 True)
   \<and> lookupPendingByCode (invites (world0\<lparr>invites := [row ''ABC123'' ''R1'' ''a@x.com'' PENDING 0]\<rparr>))
        ''ABC123'' = [row ''ABC123'' ''R1'' ''a@x.com'' PENDING 0]
   \<and> asignarRolPorInvite (example_grant_env 3 True) (example_member False) ''ABC123''
        (world0\<lparr>invites := [row ''ABC123'' ''R1'' ''a@x.com'' PENDING 0]\<rparr>)
      = (HierarchyViolation,
         world0\<lparr>invites := [row ''ABC123'' ''R1'' ''a@x.com'' PENDING 0],
                trace := [Console LOG, QueryPendingByCode ''ABC123'', MembersFetch, Console WARN]\<rparr>)"
proof -
  let ?r = "row ''ABC123'' ''R1'' ''a@x.com'' PENDING 0"
  let ?w = "world0\<lparr>invites := [?r]\<rparr>"
  have h: "selectOk (example_grant_env 3 True)"
    "lookupPendingByCode (invites ?w) ''ABC123'' = ?r # []"
    "roles (guild (example_member False)) (role_id ?r) = None
     \<or> (\<exists>rl h. roles (guild (example_member False)) (role_id ?r) = Some rl
                \<and> botHighest (example_grant_env 3 True) = Some h \<and> h \<le> position rl)"
    by (simp_all add: example_grant_env_def example_member_def lookupPendingByCode_def row_def)
  have n: "roles (guild (example_member False)) (role_id ?r) \<noteq> None"
    by (simp add: example_member_def row_def)
  from refused_grant [OF h] h(1,2) n show ?thesis by (simp add: world0_def)
qed

text \<open>
  C6: when the SELECT finds the PENDING row, its role is in the guild below the bot's
  highest role, and \<^verbatim>\<open>roles.add\<close> succeeds, the role is added before the UPDATE is sent
  (the trace has \<open>RolesAdd\<close> before \<open>QueryUpdateUsed\<close>). When the UPDATE then fails, the
  member has the role and the table is as before, the row still PENDING; the failure is
  caught and logged. When it succeeds, the row is USED.
\<close>

theorem grant_before_ledger:
  assumes "selectOk env" and "lookupPendingByCode (invites w) c = r # rest"
    and "roles (guild member) (role_id r) = Some rl" and "botHighest env = Some h"
    and "position rl < h" and "rolesAddOk env"
  shows "asignarRolPorInvite env member c w =
           (if updateOk env then Granted else Caught,
            w\<lparr>memberRoles := insert (user_id member, role_id r) (memberRoles w),
              invites := (if updateOk env
                          then markUsed (invites w) (usedNow env) (user_id member) c
                          else invites w),
              trace := trace w @ [Console LOG, QueryPendingByCode c, MembersFetch,
                                  RolesAdd (user_id member) (role_id r), Console LOG,
                                  QueryUpdateUsed c,
                                  Console (if updateOk env then LOG else ERROR)]\<rparr>)"
  using assms by (simp add: asignarRolPorInvite_def emit_def Let_def)


theorem grant_before_ledger_witness:
  "selectOk (example_grant_env 9 False) \<and> rolesAddOk (example_grant_env 9 False)
   \<and> lookupPendingByCode (invites (world0\<lparr>invites := [row ''ABC123'' ''R1'' ''a@x.com'' PENDING 0]\<rparr>))
        ''ABC123'' = [row ''ABC123'' ''R1'' ''a@x.com'' PENDING 0]
   \<and> asignarRolPorInvite (example_grant_env 9 False) (example_member False) ''ABC123''
        (world0\<lparr>invites := [row ''ABC123'' ''R1'' ''a@x.com'' PENDING 0]\<rparr>)
      = (Caught,
         world0\<lparr>memberRoles := {(''M1'', ''R1'')},
                invites := [row ''ABC123'' ''R1'' ''a@x.com'' PENDING 0],
                trace := [Console LOG, QueryPendingByCode ''ABC123'', MembersFetch,
                          RolesAdd ''M1'' ''R1'', Console LOG, QueryUpdateUsed ''ABC123'',
                          Console ERROR]\<rparr>)"
proof -
  let ?r = "row ''ABC123'' ''R1'' ''a@x.com'' PENDING 0"
  let ?w = "world0\<lparr>invites := [?r]\<rparr>"
  have h: "selectOk (example_grant_env 9 False)"
    "lookupPendingByCode (invites ?w) ''ABC123'' = ?r # []"
    "roles (guild (example_member False)) (role_id ?r) = Some \<lparr>position = 5\<rparr>"
    "botHighest (example_grant_env 9 False) = Some 9"
    "position \<lparr>position = 5\<rparr> < 9"
    "rolesAddOk (example_grant_env 9 False)"
    by (simp_all add: example_grant_env_def example_member_def lookupPendingByCode_def row_def)
  have e: "\<not> updateOk (example_grant_env 9 False)" "user_id (example_member False) = ''M1''"
    "role_id ?r = ''R1''"
    by (simp_all add: example_grant_env_def example_member_def row_def)
  from grant_before_ledger [OF h] h(1,2,6) e show ?thesis by (simp add: world0_def)
qed

section \<open>Claims about the cache\<close>

text \<open>
  C8: when the fetch of the live invites of a join event succeeds, the handler ends with
  the guild's cached snapshot built from that collection, whichever way it ends
  (no code, a gated member, or the call of \<^verbatim>\<open>asignarRolPorInvite\<close> with any result), and
  it returns normally. For a collection with one entry per code the snapshot has exactly
  the collection's codes, each with its use count (0 for null), in the collection's order.
\<close>

theorem join_resynchronises_cache:
  assumes "fetched env = Some new"
  shows "inviteCache (snd (guildMemberAdd env member w)) (guild_id (guild member))
           = Some (snapshot_of new)
         \<and> cached (snd (guildMemberAdd env member w)) (guild_id (guild member)) = snapshot_of new
         \<and> (distinct (map code new) \<longrightarrow>
              snapshot_of new = map (\<lambda>i. (code i, orZero (uses i))) new)
         \<and> (\<exists>out. fst (guildMemberAdd env member w) = (Resolved, Some out))"
proof -
  have "\<exists>out. fst (guildMemberAdd env member w) = (Resolved, Some out)"
    using assms
    by (simp add: guildMemberAdd_def Let_def split: prod.splits option.splits)
  with assms guildMemberAdd_cache [of env new member w] show ?thesis
    by (simp add: cached_def snapshot_of_distinct)
qed

theorem join_resynchronises_cache_witness:
  "fst (guildMemberAdd
         \<lparr>fetched = Some [\<lparr>code = ''ABC123'', uses = Some 0\<rparr>], recentPendingOk = True,
          grantEnv = example_grant_env 9 True\<rparr>
         (example_member False) world0) = (Resolved, Some Unresolved)
   \<and> cached (snd (guildMemberAdd
         \<lparr>fetched = Some [\<lparr>code = ''ABC123'', uses = Some 0\<rparr>], recentPendingOk = True,
          grantEnv = example_grant_env 9 True\<rparr>
         (example_member False) world0)) ''G1'' = [(''ABC123'', 0)]
   \<and> fst (guildMemberAdd
         \<lparr>fetched = Some [\<lparr>code = ''ABC123'', uses = Some 1\<rparr>], recentPendingOk = True,
          grantEnv = example_grant_env 9 True\<rparr>
         (example_member True)
         (world0\<lparr>inviteCache := [''G1'' \<mapsto> [(''ABC123'', 0)]]\<rparr>)) = (Resolved, Some (Deferred ''ABC123''))
   \<and> cached (snd (guildMemberAdd
         \<lparr>fetched = Some [\<lparr>code = ''ABC123'', uses = Some 1\<rparr>], recentPendingOk = True,
          grantEnv = example_grant_env 9 True\<rparr>
         (example_member True)
         (world0\<lparr>inviteCache := [''G1'' \<mapsto> [(''ABC123'', 0)]]\<rparr>))) ''G1'' = [(''ABC123'', 1)]
   \<and> fst (guildMemberAdd
         \<lparr>fetched = Some [\<lparr>code = ''ABC123'', uses = Some 1\<rparr>], recentPendingOk = True,
          grantEnv = example_grant_env 9 True\<rparr>
         (example_member False)
         (world0\<lparr>inviteCache := [''G1'' \<mapsto> [(''ABC123'', 0)]],
                 invites := [row ''ABC123'' ''R1'' ''a@x.com'' PENDING 0]\<rparr>))
       = (Resolved, Some (Assigned ''ABC123'' Granted))
   \<and> cached (snd (guildMemberAdd
         \<lparr>fetched = Some [\<lparr>code = ''ABC123'', uses = Some 1\<rparr>], recentPendingOk = True,
          grantEnv = example_grant_env 9 True\<rparr>
         (example_member False)
         (world0\<lparr>inviteCache := [''G1'' \<mapsto> [(''ABC123'', 0)]],
                 invites := [row ''ABC123'' ''R1'' ''a@x.com'' PENDING 0]\<rparr>))) ''G1''
       = [(''ABC123'', 1)]"
proof -
  let ?e0 = "\<lparr>fetched = Some [\<lparr>code = ''ABC123'', uses = Some 0\<rparr>], recentPendingOk = True,
          grantEnv = example_grant_env 9 True\<rparr>"
  let ?e1 = "\<lparr>fetched = Some [\<lparr>code = ''ABC123'', uses = Some 1\<rparr>], recentPendingOk = True,
          grantEnv = example_grant_env 9 True\<rparr>"
  let ?w1 = "world0\<lparr>inviteCache := [''G1'' \<mapsto> [(''ABC123'', 0)]]\<rparr>"
  let ?w2 = "world0\<lparr>inviteCache := [''G1'' \<mapsto> [(''ABC123'', 0)]],
                 invites := [row ''ABC123'' ''R1'' ''a@x.com'' PENDING 0]\<rparr>"
  have g: "guild_id (guild (example_member p)) = ''G1''" for p
    by (simp add: example_member_def)
  have s: "snapshot_of [\<lparr>code = ''ABC123'', uses = Some 0\<rparr>] = [(''ABC123'', 0)]"
    "snapshot_of [\<lparr>code = ''ABC123'', uses = Some 1\<rparr>] = [(''ABC123'', 1)]"
    by (simp_all add: snapshot_of_def orZero_def)
  have h0: "fetched ?e0 = Some [\<lparr>code = ''ABC123'', uses = Some 0\<rparr>]"
    and h1: "fetched ?e1 = Some [\<lparr>code = ''ABC123'', uses = Some 1\<rparr>]" by simp_all
  have o0: "fst (guildMemberAdd ?e0 (example_member False) world0) = (Resolved, Some Unresolved)"
    by (simp add: guildMemberAdd_def Let_def attribution_def step1_def step2_def fallback_def truthy_def
        cached_def emit_def lookupMostRecentPending_def orZero_def example_member_def world0_def)
  have o1: "fst (guildMemberAdd ?e1 (example_member True) ?w1)
              = (Resolved, Some (Deferred ''ABC123''))"
    by (simp add: guildMemberAdd_def Let_def attribution_def step1_def step2_def fallback_def truthy_def
        cached_def emit_def orZero_def example_member_def world0_def)
  have o2: "fst (guildMemberAdd ?e1 (example_member False) ?w2)
              = (Resolved, Some (Assigned ''ABC123'' Granted))"
    by (simp add: guildMemberAdd_def Let_def attribution_def step1_def step2_def fallback_def truthy_def
        cached_def emit_def orZero_def example_member_def world0_def asignarRolPorInvite_def
        lookupPendingByCode_def example_grant_env_def row_def)
  from join_resynchronises_cache [OF h0, of "example_member False" world0]
    join_resynchronises_cache [OF h1, of "example_member True" ?w1]
    join_resynchronises_cache [OF h1, of "example_member False" ?w2]
    o0 o1 o2 show ?thesis by (simp add: g s)
qed

text \<open>
  C9: when either fetch of \<^verbatim>\<open>populateGuildInvites\<close> fails, the function still returns
  normally, the cache is as before (so the guild's snapshot is its prior one, or the empty
  one when it had none), and the last thing done is the line on the error console. The
  \<^verbatim>\<open>ready\<close> handler that called it goes on to set up the routes and to listen.
\<close>

theorem populate_failure:
  assumes "guildsFetch env = None \<or> invitesFetch env = None"
  shows "fst (populateGuildInvites env g w) = Resolved
         \<and> inviteCache (snd (populateGuildInvites env g w)) = inviteCache w
         \<and> cached (snd (populateGuildInvites env g w)) g = cached w g
         \<and> last (trace (snd (populateGuildInvites env g w))) = Console ERROR
         \<and> (g \<noteq> [] \<longrightarrow> fst (ready env (Some g) w) = Resolved
              \<and> inviteCache (snd (ready env (Some g) w)) = inviteCache w
              \<and> (\<exists>evs. trace (snd (ready env (Some g) w)) = evs @ [SetupApiRoutes, Listen]))"
  using assms
  by (auto simp: populateGuildInvites_def ready_def cached_def emit_def Let_def
      split: option.splits prod.splits)


theorem populate_failure_witness:
  "invitesFetch \<lparr>guildsFetch = Some (), invitesFetch = None\<rparr> = None
   \<and> cached (snd (populateGuildInvites \<lparr>guildsFetch = Some (), invitesFetch = None\<rparr> ''G1''
        (world0\<lparr>inviteCache := [''G1'' \<mapsto> [(''ABC123'', 0)]]\<rparr>))) ''G1'' = [(''ABC123'', 0)]
   \<and> cached (snd (populateGuildInvites \<lparr>guildsFetch = Some (), invitesFetch = None\<rparr> ''G1''
        world0)) ''G1'' = []
   \<and> ready \<lparr>guildsFetch = Some (), invitesFetch = None\<rparr> (Some ''G1'') world0
      = (Resolved,
         world0\<lparr>trace := [Console LOG, GuildsFetch ''G1'', InvitesFetch ''G1'', Console ERROR,
                           SetupApiRoutes, Listen]\<rparr>)"
proof -
  let ?env = "\<lparr>guildsFetch = Some (), invitesFetch = None\<rparr>"
  have h: "guildsFetch ?env = None \<or> invitesFetch ?env = None" by simp
  have r: "ready ?env (Some ''G1'') world0
      = (Resolved,
         world0\<lparr>trace := [Console LOG, GuildsFetch ''G1'', InvitesFetch ''G1'', Console ERROR,
                           SetupApiRoutes, Listen]\<rparr>)"
    by (simp add: ready_def populateGuildInvites_def emit_def world0_def)
  from populate_failure [OF h, of "''G1''" "world0\<lparr>inviteCache := [''G1'' \<mapsto> [(''ABC123'', 0)]]\<rparr>"]
    populate_failure [OF h, of "''G1''" world0] r
  show ?thesis by (simp add: cached_def world0_def)
qed

section \<open>Claims about the issuance\<close>

text \<open>
  C7, as the specification has it: after every request to \<^verbatim>\<open>/generate-invite\<close> the
  ledger has at most one PENDING row per email. This fails when two requests for one
  email overlap: the route awaits the creation of the platform's invite between its SELECT
  and its INSERT, so both SELECTs can be answered before either INSERT. Here the table is
  empty, both requests find no PENDING row of a@x.com, and both insert one.
\<close>

theorem issuance_keeps_one_pending_counterexample:
  "one_pending_per_email (invites world0)
   \<and> invites (overlapping_issuances 86400 (example_api_env 1000 True)
        ((example_api_env 2000 True)\<lparr>createInvite := Some ''NEW2''\<rparr>)
        ''a@x.com'' ''R1'' world0)
     = [row ''NEW1'' ''R1'' ''a@x.com'' PENDING 1001, row ''NEW2'' ''R1'' ''a@x.com'' PENDING 2001]
   \<and> \<not> one_pending_per_email (invites (overlapping_issuances 86400 (example_api_env 1000 True)
        ((example_api_env 2000 True)\<lparr>createInvite := Some ''NEW2''\<rparr>)
        ''a@x.com'' ''R1'' world0))"
  by (simp add: overlapping_issuances_def checkExisting_def createNew_def create_def
      lookupPendingByEmail_def one_pending_per_email_def emit_def Let_def
      example_api_env_def row_def world0_def)

text \<open>
  C7, amended: a request to \<^verbatim>\<open>/generate-invite\<close> that runs from its SELECT to its end
  with no other write to the table in between keeps the ledger at one PENDING row per
  email at most, whatever its fields are and whichever of its calls fail. For the PENDING
  row \<open>r\<close>
  of the request's email, once the SELECT is answered: while \<open>r\<close> has not expired (the
  check is \<^verbatim>\<open>now < created_at + TTL\<close>, the time the INSERT stored as \<open>expires_at\<close>) the
  request changes nothing but the trace, so no row is created; once it has expired, the
  UPDATE that marks it EXPIRED is sent first, and when that UPDATE fails the request ends
  with the table as it was; when it succeeds the table is the one with \<open>r\<close> EXPIRED,
  followed, if the creation of the new invite succeeds, by the new PENDING row of the
  email, and the trace has the UPDATE before the INSERT.
\<close>

theorem issuance_keeps_one_pending:
  assumes "one_pending_per_email (invites w)"
  shows "one_pending_per_email (invites (snd (generate_invite ttl env emailField roleIdField w)))
    \<and> (r \<in> set (invites w) \<and> status r = PENDING \<and> email r \<noteq> [] \<and> roleId \<noteq> []
         \<and> selectEmailOk env \<longrightarrow>
       (if checkNow env < created_at r + ttl * 1000
        then snd (generate_invite ttl env (Some (email r)) (Some roleId) w) =
               w\<lparr>trace := trace w @ [QueryPendingByEmail (email r), Console LOG,
                                       EmailsSend (email r),
                                       Console (if send env = Sent then LOG else ERROR)]\<rparr>
        else if \<not> updateExpiredOk env
        then snd (generate_invite ttl env (Some (email r)) (Some roleId) w) =
               w\<lparr>trace := trace w @ [QueryPendingByEmail (email r), Console LOG,
                                       QueryUpdateExpired (invite_code r), Console ERROR]\<rparr>
        else if \<not> creation_succeeds env
        then invites (snd (generate_invite ttl env (Some (email r)) (Some roleId) w))
               = markExpired (invites w) (invite_code r)
        else snd (generate_invite ttl env (Some (email r)) (Some roleId) w) =
               w\<lparr>invites := create (markExpired (invites w) (invite_code r))
                                (the (createInvite env)) roleId (email r)
                                (insertNow env) (insertNow env + ttl * 1000),
                 trace := trace w @ [QueryPendingByEmail (email r), Console LOG,
                                     QueryUpdateExpired (invite_code r), Console LOG,
                                     CreateInvite, Console LOG,
                                     QueryInsert (the (createInvite env)), EmailsSend (email r),
                                     Console (if send env = Sent then LOG else ERROR)]\<rparr>))"
proof (intro conjI impI)
  show "one_pending_per_email (invites (snd (generate_invite ttl env emailField roleIdField w)))"
    using assms by (rule generate_invite_one_pending)
next
  assume a: "r \<in> set (invites w) \<and> status r = PENDING \<and> email r \<noteq> [] \<and> roleId \<noteq> []
         \<and> selectEmailOk env"
  with assms have l: "lookupPendingByEmail (invites w) (email r) = [r]"
    by (simp add: one_pending_lookup)
  show "if checkNow env < created_at r + ttl * 1000
        then snd (generate_invite ttl env (Some (email r)) (Some roleId) w) =
               w\<lparr>trace := trace w @ [QueryPendingByEmail (email r), Console LOG,
                                       EmailsSend (email r),
                                       Console (if send env = Sent then LOG else ERROR)]\<rparr>
        else if \<not> updateExpiredOk env
        then snd (generate_invite ttl env (Some (email r)) (Some roleId) w) =
               w\<lparr>trace := trace w @ [QueryPendingByEmail (email r), Console LOG,
                                       QueryUpdateExpired (invite_code r), Console ERROR]\<rparr>
        else if \<not> creation_succeeds env
        then invites (snd (generate_invite ttl env (Some (email r)) (Some roleId) w))
               = markExpired (invites w) (invite_code r)
        else snd (generate_invite ttl env (Some (email r)) (Some roleId) w) =
               w\<lparr>invites := create (markExpired (invites w) (invite_code r))
                                (the (createInvite env)) roleId (email r)
                                (insertNow env) (insertNow env + ttl * 1000),
                 trace := trace w @ [QueryPendingByEmail (email r), Console LOG,
                                     QueryUpdateExpired (invite_code r), Console LOG,
                                     CreateInvite, Console LOG,
                                     QueryInsert (the (createInvite env)), EmailsSend (email r),
                                     Console (if send env = Sent then LOG else ERROR)]\<rparr>"
  proof (cases "checkNow env < created_at r + ttl * 1000")
    case True
    with a l show ?thesis by (simp add: generate_invite_valid)
  next
    case False
    then have x: "created_at r + ttl * 1000 \<le> checkNow env" by simp
    show ?thesis
    proof (cases "updateExpiredOk env")
      case u: False
      with a l x False show ?thesis by (simp add: generate_invite_update_fails)
    next
      case u: True
      show ?thesis
      proof (cases "creation_succeeds env")
        case c: False
        with a l x u False show ?thesis by (simp add: generate_invite_expires_only)
      next
        case c: True
        then obtain k where k: "createInvite env = Some k" by (auto simp: creation_succeeds_def)
        with c have "guildFound env" "channelOk env" "insertOk env"
          by (simp_all add: creation_succeeds_def)
        with a l x u k generate_invite_replaces [of w "email r" r roleId env ttl k]
        show ?thesis using False c by simp
      qed
    qed
  qed
qed

theorem issuance_keeps_one_pending_witness:
  "one_pending_per_email [row ''OLD1'' ''R1'' ''a@x.com'' PENDING 0]
   \<and> generate_invite 86400 (example_api_env 90000000 True) (Some ''a@x.com'') (Some ''R1'')
        (world0\<lparr>invites := [row ''OLD1'' ''R1'' ''a@x.com'' PENDING 0]\<rparr>)
      = (Status200 ''https://discord.gg/NEW1'',
         world0\<lparr>invites := [row ''OLD1'' ''R1'' ''a@x.com'' EXPIRED 0,
                             row ''NEW1'' ''R1'' ''a@x.com'' PENDING 90000001],
                trace := [QueryPendingByEmail ''a@x.com'', Console LOG,
                          QueryUpdateExpired ''OLD1'', Console LOG, CreateInvite, Console LOG,
                          QueryInsert ''NEW1'', EmailsSend ''a@x.com'', Console LOG]\<rparr>)
   \<and> one_pending_per_email [row ''OLD1'' ''R1'' ''a@x.com'' EXPIRED 0,
                            row ''NEW1'' ''R1'' ''a@x.com'' PENDING 90000001]
   \<and> invites (snd (generate_invite 86400 (example_api_env 1000 True) (Some ''a@x.com'')
        (Some ''R1'') (world0\<lparr>invites := [row ''OLD1'' ''R1'' ''a@x.com'' PENDING 0]\<rparr>)))
      = [row ''OLD1'' ''R1'' ''a@x.com'' PENDING 0]"
proof -
  let ?r = "row ''OLD1'' ''R1'' ''a@x.com'' PENDING 0"
  let ?w = "world0\<lparr>invites := [?r]\<rparr>"
  have h: "one_pending_per_email (invites ?w)"
    by (simp add: one_pending_per_email_def row_def)
  have a: "?r \<in> set (invites ?w) \<and> status ?r = PENDING \<and> email ?r \<noteq> [] \<and> ''R1'' \<noteq> []
           \<and> selectEmailOk (example_api_env t u)" for t u
    by (simp add: row_def example_api_env_def)
  have e: "generate_invite 86400 (example_api_env 90000000 True) (Some ''a@x.com'') (Some ''R1'') ?w
      = (Status200 ''https://discord.gg/NEW1'',
         world0\<lparr>invites := [row ''OLD1'' ''R1'' ''a@x.com'' EXPIRED 0,
                             row ''NEW1'' ''R1'' ''a@x.com'' PENDING 90000001],
                trace := [QueryPendingByEmail ''a@x.com'', Console LOG,
                          QueryUpdateExpired ''OLD1'', Console LOG, CreateInvite, Console LOG,
                          QueryInsert ''NEW1'', EmailsSend ''a@x.com'', Console LOG]\<rparr>)"
    by (simp add: generate_invite_def checkExisting_def createNew_def sendMail_def emit_def
        Let_def lookupPendingByEmail_def markExpired_def create_def inviteUrl_def
        example_api_env_def row_def world0_def)
  have v: "checkNow (example_api_env 1000 True) < created_at ?r + 86400 * 1000"
    "email ?r = ''a@x.com''"
    by (simp_all add: example_api_env_def row_def)
  from issuance_keeps_one_pending [OF h, of 86400 "example_api_env 90000000 True"
      "Some ''a@x.com''" "Some ''R1''" ?r "''R1''"]
    issuance_keeps_one_pending [OF h, of 86400 "example_api_env 1000 True"
      "Some ''a@x.com''" "Some ''R1''" ?r "''R1''"]
    a [of 1000 True] v e h
  show ?thesis by simp
qed

end
